theory Spec2Isabelle
  imports Main
begin

section \<open>The store writer of the cache: data model\<close>

text \<open>
  A shallow embedding of \<^verbatim>\<open>StoreWriter.writeToStore\<close>, \<^verbatim>\<open>processSelectionSet\<close>,
  \<^verbatim>\<open>processFieldValue\<close> and \<^verbatim>\<open>warnAboutDataLoss\<close>. The query document is a tree of
  node objects. JavaScript compares node objects by identity (\<^verbatim>\<open>indexOf\<close>, \<^verbatim>\<open>Set\<close>), so
  every node carries the address of its object as its first component: a heap holds one
  object per address, hence two nodes are the same object exactly when they are equal here,
  and two nodes of the same shape at different addresses are different objects.
\<close>

datatype argvalue = BoolLit bool | Variable string | OtherLit string

datatype directive = Directive string "(string \<times> argvalue) list"

text \<open>
  \<^verbatim>\<open>FieldNode\<close>: address, alias, name, arguments, directives, selection set.
  \<^verbatim>\<open>FragmentSpreadNode\<close>: address, fragment name, directives.
  \<^verbatim>\<open>InlineFragmentNode\<close>: address, type condition, directives, selection set.
  \<^verbatim>\<open>SelectionSetNode\<close>: address, selections.
\<close>

datatype selection =
    Field nat "string option" string "(string \<times> argvalue) list" "directive list" "selset option"
  | FragmentSpread nat string "directive list"
  | InlineFragment nat "string option" "directive list" selset
and selset = SelectionSet nat "selection list"

text \<open>\<^verbatim>\<open>FragmentDefinitionNode\<close>: address, name, type condition, directives, selection set.\<close>

datatype fragment = FragmentDefinition nat string string "directive list" selset

type_synonym fragmentMap = "(string \<times> fragment) list"

text \<open>
  Values of results and of the store. An object is the list of its own properties in
  insertion order. \<^verbatim>\<open>FieldValueToBeMerged\<close> is the object
  \<^verbatim>\<open>{__field, __typename, __value}\<close> of line 249, the only value that holds a node.
  \<open>JRef\<close> is a Reference, the handle \<^verbatim>\<open>{ __ref: id }\<close> to an entity; the data model
  keeps it structurally distinguishable from every ordinary value. \<open>JNative\<close> is an object
  of the runtime that a property read can reach through a prototype chain, such as a
  built-in function, by its name. \<open>JBare\<close> is \<^verbatim>\<open>Object.create(null)\<close> as line 127 makes it:
  an object with no prototype and no property.
\<close>

datatype jsval =
    JUndef
  | JNull
  | JBool bool
  | JNum int
  | JStr string
  | JArr "jsval list"
  | JObj "(string \<times> jsval) list"
  | FieldValueToBeMerged selection jsval jsval
  | JRef string
  | JNative string
  | JBare

type_synonym storeObject = "(string \<times> jsval) list"

text \<open>
  The error of line 268, and the \<^verbatim>\<open>RangeError\<close> of the engine when the calls nest deeper
  than its stack allows.
\<close>

datatype error = InvariantError string | RangeError

fun selections :: "selset \<Rightarrow> selection list" where
  "selections (SelectionSet a sels) = sels"

fun isField :: "selection \<Rightarrow> bool" where
  "isField (Field a al n args ds ss) = True"
| "isField s = False"

fun name_value :: "selection \<Rightarrow> string" where
  "name_value (Field a al n args ds ss) = n"
| "name_value (FragmentSpread a n ds) = n"
| "name_value (InlineFragment a tc ds ss) = []"

fun field_selectionSet :: "selection \<Rightarrow> selset option" where
  "field_selectionSet (Field a al n args ds ss) = ss"
| "field_selectionSet (FragmentSpread a n ds) = None"
| "field_selectionSet (InlineFragment a tc ds ss) = Some ss"

fun fragment_name :: "fragment \<Rightarrow> string" where
  "fragment_name (FragmentDefinition a n tc ds ss) = n"

fun fragment_selectionSet :: "selection + fragment \<Rightarrow> selset" where
  "fragment_selectionSet (Inr (FragmentDefinition a n tc ds ss)) = ss"
| "fragment_selectionSet (Inl (InlineFragment a tc ds ss)) = ss"
| "fragment_selectionSet (Inl s) = SelectionSet 0 []"

subsection \<open>JavaScript operators on values\<close>

fun truthy :: "jsval \<Rightarrow> bool" where
  "truthy JUndef = False"
| "truthy JNull = False"
| "truthy (JBool b) = b"
| "truthy (JNum n) = (n \<noteq> 0)"
| "truthy (JStr s) = (s \<noteq> [])"
| "truthy v = True"

definition js_or :: "jsval \<Rightarrow> jsval \<Rightarrow> jsval" where
  "js_or a b = (if truthy a then a else b)"

definition js_and :: "jsval \<Rightarrow> jsval \<Rightarrow> jsval" where
  "js_and a b = (if truthy a then b else a)"

text \<open>\<^verbatim>\<open>"string" === typeof v\<close>\<close>

fun typeof_string :: "jsval \<Rightarrow> bool" where
  "typeof_string (JStr s) = True"
| "typeof_string v = False"

text \<open>\<^verbatim>\<open>typeof v === "object"\<close>, which holds of \<^verbatim>\<open>null\<close> too.\<close>

fun typeof_object :: "jsval \<Rightarrow> bool" where
  "typeof_object JNull = True"
| "typeof_object (JArr xs) = True"
| "typeof_object (JObj kvs) = True"
| "typeof_object (FieldValueToBeMerged f t v) = True"
| "typeof_object (JRef d) = True"
| "typeof_object JBare = True"
| "typeof_object v = False"

fun isArray :: "jsval \<Rightarrow> bool" where
  "isArray (JArr xs) = True"
| "isArray v = False"

text \<open>An optional identifier as the value JavaScript sees: \<^verbatim>\<open>undefined\<close> or a string.\<close>

fun id_value :: "string option \<Rightarrow> jsval" where
  "id_value None = JUndef"
| "id_value (Some d) = JStr d"

text \<open>\<^verbatim>\<open>dataId || id\<close> of line 173: the empty string is falsy.\<close>

fun id_or :: "string option \<Rightarrow> string option \<Rightarrow> string option" where
  "id_or (Some d) i = (if d \<noteq> [] then Some d else i)"
| "id_or None i = i"

text \<open>
  The own properties that the model holds: those of a plain object. \<open>getField\<close> and
  \<open>getProp\<close> read an own property and give \<^verbatim>\<open>undefined\<close> when there is none; the records
  that the writer builds have no prototype (line 203), so \<open>getField\<close> is \<^verbatim>\<open>obj[key]\<close> on
  them. What \<^verbatim>\<open>obj[key]\<close> finds on a result beyond its own properties is \<open>readProp\<close> below.
\<close>

fun ownProp :: "jsval \<Rightarrow> string \<Rightarrow> jsval option" where
  "ownProp (JObj kvs) k = map_of kvs k"
| "ownProp v k = None"

definition getField :: "storeObject \<Rightarrow> string \<Rightarrow> jsval" where
  "getField kvs k = (case map_of kvs k of Some v \<Rightarrow> v | None \<Rightarrow> JUndef)"

fun getProp :: "jsval \<Rightarrow> string \<Rightarrow> jsval" where
  "getProp (JObj kvs) k = getField kvs k"
| "getProp v k = JUndef"

text \<open>\<^verbatim>\<open>obj[key] = v\<close>: an existing property keeps its place, a new one goes last.\<close>

fun setField :: "storeObject \<Rightarrow> string \<Rightarrow> jsval \<Rightarrow> storeObject" where
  "setField [] k v = [(k, v)]"
| "setField ((k', v') # kvs) k v =
     (if k' = k then (k, v) # kvs else (k', v') # setField kvs k v)"

text \<open>\<^verbatim>\<open>{...a, ...b}\<close>\<close>

definition spread :: "storeObject \<Rightarrow> storeObject \<Rightarrow> storeObject" where
  "spread a b = foldl (\<lambda>acc kv. setField acc (fst kv) (snd kv)) a b"

fun string_of_nat :: "nat \<Rightarrow> string" where
  "string_of_nat n =
     (if n < 10 then [char_of (48 + n)]
      else string_of_nat (n div 10) @ [char_of (48 + n mod 10)])"

declare string_of_nat.simps [simp del]

text \<open>\<^verbatim>\<open>Object.keys\<close>: the own keys of an object, the indices of an array.\<close>

fun objectKeys :: "jsval \<Rightarrow> string list" where
  "objectKeys (JObj kvs) = map fst kvs"
| "objectKeys (JArr xs) = map string_of_nat [0..<length xs]"
| "objectKeys (FieldValueToBeMerged f t v) = [''__field'', ''__typename'', ''__value'']"
| "objectKeys (JRef d) = [''__ref'']"
| "objectKeys v = []"

subsection \<open>Helpers of the utilities modules\<close>

text \<open>
  Modelled from the spec: \<^verbatim>\<open>makeReference\<close> and \<^verbatim>\<open>isReference\<close> of
  \<^verbatim>\<open>utilities/graphql/storeUtils\<close>, which is not among the sources: the one makes the
  Reference to an identifier (line 147 reads the identifier back as \<^verbatim>\<open>ref.__ref\<close>), the
  other tells a Reference from any other value.
\<close>

definition makeReference :: "string \<Rightarrow> jsval" where
  "makeReference d = JRef d"

fun isReference :: "jsval \<Rightarrow> bool" where
  "isReference (JRef d) = True"
| "isReference v = False"

text \<open>
  Modelled from the spec: \<^verbatim>\<open>resultKeyNameFromField\<close> of the same module, the
  response key of a field: its alias when it has one, its name otherwise.
\<close>

fun resultKeyNameFromField :: "selection \<Rightarrow> string" where
  "resultKeyNameFromField (Field a (Some al) n args ds ss) = al"
| "resultKeyNameFromField s = name_value s"

text \<open>
  Modelled from the spec: \<^verbatim>\<open>createFragmentMap\<close> and \<^verbatim>\<open>getFragmentFromSelection\<close> of
  \<^verbatim>\<open>utilities/graphql/fragments\<close>. The table maps a fragment's name to its definition, a
  later definition of a name replacing an earlier one; an inline fragment resolves to
  itself, a spread to the table's entry, a field to nothing.
\<close>

definition createFragmentMap :: "fragment list \<Rightarrow> fragmentMap" where
  "createFragmentMap fs = rev (map (\<lambda>f. (fragment_name f, f)) fs)"

fun getFragmentFromSelection :: "selection \<Rightarrow> fragmentMap \<Rightarrow> (selection + fragment) option" where
  "getFragmentFromSelection (InlineFragment a tc ds ss) fm = Some (Inl (InlineFragment a tc ds ss))"
| "getFragmentFromSelection (FragmentSpread a n ds) fm = map_option Inr (map_of fm n)"
| "getFragmentFromSelection (Field a al n args ds ss) fm = None"

text \<open>
  Modelled from the spec: \<^verbatim>\<open>cloneDeep\<close> of \<^verbatim>\<open>utilities/common/cloneDeep\<close> produces an
  independent copy. Values here have no identity, so the copy is the value.
\<close>

definition cloneDeep :: "jsval \<Rightarrow> jsval" where
  "cloneDeep v = v"

subsection \<open>The write context and the collaborators\<close>

text \<open>
  The part of \<^verbatim>\<open>WriteContext\<close> that a write only reads.
\<close>

record wcontext =
  variables :: storeObject
  varString :: string
  fragmentMap :: fragmentMap

text \<open>
  What \<^verbatim>\<open>invariant.warn\<close> is called with at line 429, by the parts of the message that
  vary: field name, parent type, child type names, and the two snapshots.
\<close>

datatype warning = DataLossWarning string string "string list" string string

text \<open>
  Everything a write mutates: the store of the context, \<^verbatim>\<open>context.written\<close> (an absent
  entry reads as the empty array, as line 181 makes it), the module's \<^verbatim>\<open>warnings\<close> set
  in insertion order, the warnings printed so far, and the calls
  \<^verbatim>\<open>queue.getJobs().then(...)\<close> of line 312 with the \<^verbatim>\<open>dataId\<close> and \<^verbatim>\<open>mergedFields\<close>
  their callbacks close over. A promise callback never runs inside the synchronous write.
\<close>

record 's wstate =
  store :: 's
  written :: "string \<Rightarrow> selset list"
  warnings :: "string list"
  warned :: "warning list"
  getJobsCalls :: "(string \<times> storeObject) list"

text \<open>
  The collaborators, none of which is among the sources, are parameters of the model:
  the policies (\<^verbatim>\<open>this.cache.policies\<close>), the optional reader, the merger of
  \<^verbatim>\<open>makeProcessedFieldsMerger\<close> behind \<^verbatim>\<open>context.merge\<close>, the directive and typename
  helpers, the store's methods, \<^verbatim>\<open>equal\<close> of \<^verbatim>\<open>@wry/equality\<close>, \<^verbatim>\<open>JSON.stringify\<close> with
  its indentation, \<^verbatim>\<open>String(v)\<close> of template literals, and whether
  \<^verbatim>\<open>process.env.NODE_ENV\<close> is \<^verbatim>\<open>"production"\<close>. So is the JavaScript engine, by what a
  property read \<^verbatim>\<open>v[key]\<close> finds when \<open>v\<close> holds no own property \<open>key\<close> (what the
  prototype chain of an object gives, such as \<^verbatim>\<open>constructor\<close>; the \<^verbatim>\<open>length\<close> and the
  characters of a string; \<^verbatim>\<open>undefined\<close> when nothing is found), and by how many nested
  descents into values found that way its stack allows before it throws a
  \<^verbatim>\<open>RangeError\<close>: such values are objects of the runtime, which may lead to one another
  without end.
\<close>

record 's env =
  identify :: "jsval \<Rightarrow> selset \<Rightarrow> fragmentMap \<Rightarrow> string option \<times> storeObject option"
  rootTypenamesById :: "string \<Rightarrow> jsval"
  getStoreFieldName :: "jsval \<Rightarrow> string \<Rightarrow> selection \<Rightarrow> storeObject \<Rightarrow> string"
  hasMergeFunction :: "jsval \<Rightarrow> string \<Rightarrow> bool"
  usingPossibleTypes :: bool
  fragmentMatches :: "selection + fragment \<Rightarrow> jsval \<Rightarrow> bool"
  applyMerges :: "jsval \<Rightarrow> storeObject \<Rightarrow> wcontext \<Rightarrow> 's wstate \<Rightarrow> storeObject"
  reader_isFresh :: "(jsval \<Rightarrow> jsval \<Rightarrow> selset \<Rightarrow> wcontext \<Rightarrow> 's wstate \<Rightarrow> bool) option"
  merge :: "storeObject \<Rightarrow> storeObject \<Rightarrow> storeObject"
  shouldInclude :: "selection \<Rightarrow> storeObject \<Rightarrow> bool"
  hasDirectives :: "string list \<Rightarrow> selection \<Rightarrow> bool"
  getTypenameFromResult :: "jsval \<Rightarrow> selset \<Rightarrow> fragmentMap \<Rightarrow> jsval"
  fieldNameFromStoreName :: "string \<Rightarrow> string"
  store_get :: "'s \<Rightarrow> string \<Rightarrow> string \<Rightarrow> jsval"
  store_merge :: "'s \<Rightarrow> string \<Rightarrow> storeObject \<Rightarrow> 's"
  store_retain :: "'s \<Rightarrow> string \<Rightarrow> 's"
  store_getFieldValue :: "'s \<Rightarrow> jsval \<Rightarrow> string \<Rightarrow> jsval"
  equal_js :: "jsval \<Rightarrow> jsval \<Rightarrow> bool"
  stringify :: "nat \<Rightarrow> jsval \<Rightarrow> string"
  toString :: "jsval \<Rightarrow> string"
  production :: bool
  runtimeProperty :: "jsval \<Rightarrow> string \<Rightarrow> jsval"
  maxDescent :: nat

text \<open>
  \<^verbatim>\<open>result[key]\<close> of line 231: the own property when there is one, nothing on an object
  without prototype, and what the engine finds otherwise.
\<close>

definition readProp :: "'s env \<Rightarrow> jsval \<Rightarrow> string \<Rightarrow> jsval" where
  "readProp env v k =
     (case ownProp v k of
        Some x \<Rightarrow> x
      | None \<Rightarrow> (if v = JBare then JUndef else runtimeProperty env v k))"

section \<open>The Data-Loss Guard\<close>

text \<open>
  \<^verbatim>\<open>getChild\<close> of line 379: \<^verbatim>\<open>typeof child === "object" && child\<close> is the child when it
  is a non-null object and a falsy value otherwise.
\<close>

definition getChild :: "'s env \<Rightarrow> 's \<Rightarrow> string \<Rightarrow> jsval \<Rightarrow> jsval" where
  "getChild env s storeFieldName objOrRef =
     (let child = store_getFieldValue env s objOrRef storeFieldName
      in if typeof_object child then child else JBool False)"

text \<open>Lines 415 to 427: the type names of the two children, each once.\<close>

definition childTypenames :: "'s env \<Rightarrow> 's \<Rightarrow> jsval \<Rightarrow> jsval \<Rightarrow> string list" where
  "childTypenames env s existing incoming =
     (if \<not> isArray existing \<and> \<not> isArray incoming
      then foldl (\<lambda>names child.
             (case store_getFieldValue env s child ''__typename'' of
                JStr typename \<Rightarrow> if typename \<notin> set names then names @ [typename] else names
              | _ \<Rightarrow> names))
           [] [existing, incoming]
      else [])"

text \<open>\<^verbatim>\<open>warnAboutDataLoss\<close>, lines 373 to 449. It returns the state it leaves.\<close>

definition warnAboutDataLoss ::
  "'s env \<Rightarrow> jsval \<Rightarrow> storeObject \<Rightarrow> string \<Rightarrow> 's wstate \<Rightarrow> 's wstate" where
  "warnAboutDataLoss env existingRef incomingObj storeFieldName st =
     (let existing = getChild env (store st) storeFieldName existingRef in
      if \<not> truthy existing then st else
      let incoming = getChild env (store st) storeFieldName (JObj incomingObj) in
      if \<not> truthy incoming then st else
      if isReference existing then st else
      if equal_js env existing incoming then st else
      if list_all (\<lambda>key. store_getFieldValue env (store st) incoming key \<noteq> JUndef)
           (objectKeys existing) then st else
      let parentType =
            js_or (store_getFieldValue env (store st) existingRef ''__typename'')
                  (store_getFieldValue env (store st) (JObj incomingObj) ''__typename'');
          fieldName = fieldNameFromStoreName env storeFieldName;
          typeDotName = toString env parentType @ ''.'' @ fieldName in
      if typeDotName \<in> set (warnings st) then st else
      st\<lparr>warnings := warnings st @ [typeDotName],
         warned := warned st @
           [DataLossWarning fieldName (toString env parentType)
              (childTypenames env (store st) existing incoming)
              (take 1000 (stringify env 0 existing))
              (take 1000 (stringify env 0 incoming))]\<rparr>)"

section \<open>The Selection-Set Processor\<close>

text \<open>
  Lines 175 to 199, entered when \<^verbatim>\<open>dataId\<close> is a string: the Reference to return at
  once, if any, and the state left (the selection set pushed on \<^verbatim>\<open>context.written\<close>).
\<close>

definition alreadyWritten ::
  "'s env \<Rightarrow> wcontext \<Rightarrow> string option \<Rightarrow> jsval \<Rightarrow> selset \<Rightarrow> 's wstate \<Rightarrow> jsval option \<times> 's wstate" where
  "alreadyWritten env ctx dataId result selectionSet st =
     (case dataId of
        None \<Rightarrow> (None, st)
      | Some d \<Rightarrow>
          let sets = written st d; ref = makeReference d in
          if selectionSet \<in> set sets then (Some ref, st)
          else
            let st1 = st\<lparr>written := (written st)(d := sets @ [selectionSet])\<rparr> in
            (case reader_isFresh env of
               Some isFresh \<Rightarrow>
                 if isFresh result ref selectionSet ctx st1 then (Some ref, st1) else (None, st1)
             | None \<Rightarrow> (None, st1)))"

text \<open>Lines 214 to 217.\<close>

definition inferTypename ::
  "'s env \<Rightarrow> wcontext \<Rightarrow> string option \<Rightarrow> jsval \<Rightarrow> selset \<Rightarrow> 's wstate \<Rightarrow> jsval" where
  "inferTypename env ctx dataId result selectionSet st =
     js_or
       (js_or
          (js_and (id_value dataId)
             (case dataId of Some d \<Rightarrow> rootTypenamesById env d | None \<Rightarrow> JUndef))
          (getTypenameFromResult env result selectionSet (fragmentMap ctx)))
       (js_and (id_value dataId)
          (case dataId of Some d \<Rightarrow> store_get env (store st) d ''__typename'' | None \<Rightarrow> JUndef))"

text \<open>
  The work set of line 223 is a \<^verbatim>\<open>Set\<close> of node objects, walked by \<^verbatim>\<open>forEach\<close> in
  insertion order, entries added during the walk included. It is held as the entries
  already visited and the entries still to visit; \<^verbatim>\<open>workSet.add\<close> appends an entry that is
  in neither.
\<close>

definition workSet_add :: "selection list \<Rightarrow> selection list \<Rightarrow> selection \<Rightarrow> selection list" where
  "workSet_add visited todo s = (if s \<in> set visited \<or> s \<in> set todo then todo else todo @ [s])"

definition workSet_addAll :: "selection list \<Rightarrow> selection list \<Rightarrow> selection list \<Rightarrow> selection list" where
  "workSet_addAll visited todo sels = foldl (workSet_add visited) todo sels"

text \<open>Lines 203 to 221: the accumulator before the walk.\<close>

definition initialFields :: "'s env \<Rightarrow> storeObject option \<Rightarrow> jsval \<Rightarrow> storeObject" where
  "initialFields env keyObject typename =
     (let mergedFields = (case keyObject of Some k \<Rightarrow> merge env [] k | None \<Rightarrow> [])
      in if typeof_string typename then setField mergedFields ''__typename'' typename
         else mergedFields)"

text \<open>Lines 268 to 274.\<close>

definition missingField :: "'s env \<Rightarrow> string \<Rightarrow> jsval \<Rightarrow> error" where
  "missingField env resultFieldKey result =
     InvariantError (''Missing field '' @ [CHR 0x27] @ resultFieldKey @ [CHR 0x27] @ '' in '' @
       take 100 (stringify env 2 result))"

text \<open>
  Lines 289 to 337, entered when \<^verbatim>\<open>dataId\<close> is a string: custom merges, the Data-Loss
  Guard on every key, the eviction job, the commit. \<^verbatim>\<open>out.shouldApplyMerges\<close> is the flag
  \<^verbatim>\<open>out\<close>.
\<close>

definition warnAll :: "'s env \<Rightarrow> jsval \<Rightarrow> jsval \<Rightarrow> storeObject \<Rightarrow> 's wstate \<Rightarrow> 's wstate" where
  "warnAll env entityRef typename mergedFields st =
     foldl (\<lambda>s storeFieldName.
        let fieldName = fieldNameFromStoreName env storeFieldName in
        if \<not> hasMergeFunction env typename fieldName
        then warnAboutDataLoss env entityRef mergedFields storeFieldName s
        else s)
       st (objectKeys (JObj mergedFields))"

definition commitEntity ::
  "'s env \<Rightarrow> wcontext \<Rightarrow> string \<Rightarrow> jsval \<Rightarrow> storeObject \<Rightarrow> bool \<Rightarrow> 's wstate \<Rightarrow> jsval \<times> 's wstate" where
  "commitEntity env ctx dataId typename mergedFields0 out st =
     (let entityRef = makeReference dataId;
          mergedFields = (if out then applyMerges env entityRef mergedFields0 ctx st
                          else mergedFields0);
          st1 = (if \<not> production env then warnAll env entityRef typename mergedFields st
                 else st);
          st2 = (if dataId \<noteq> ''ROOT_QUERY'' \<and> truthy (getField mergedFields ''maxAge'')
                 then st1\<lparr>getJobsCalls := getJobsCalls st1 @ [(dataId, mergedFields)]\<rparr>
                 else st1);
          st3 = st2\<lparr>store := store_merge env (store st2) dataId mergedFields\<rparr>
      in (entityRef, st3))"

text \<open>
  The nodes that a walk can ever put into the work set: the entries it holds, the
  selections of the fragments of the table, and the selections nested in inline fragments
  of either. The walk adds nothing else, which bounds it.
\<close>

fun subnodes :: "selection \<Rightarrow> selection set" where
  "subnodes (InlineFragment a tc ds (SelectionSet b sels)) =
     insert (InlineFragment a tc ds (SelectionSet b sels)) (\<Union>s \<in> set sels. subnodes s)"
| "subnodes s = {s}"

definition universe :: "fragmentMap \<Rightarrow> selection list \<Rightarrow> selection set" where
  "universe fm ws =
     (\<Union>s \<in> set ws. subnodes s) \<union>
     (\<Union>f \<in> snd ` set fm. \<Union>s \<in> set (selections (fragment_selectionSet (Inr f))). subnodes s)"

definition walk_measure :: "fragmentMap \<Rightarrow> selection list \<Rightarrow> selection list \<Rightarrow> nat" where
  "walk_measure fm visited todo =
     2 * card (universe fm (visited @ todo) - set (visited @ todo)) + length todo"

subsection \<open>Facts for termination\<close>

lemma size_getField: "map_of kvs k = Some v \<Longrightarrow> size v < Suc (size_list (size_prod (\<lambda>x. 0) size) kvs)"
  by (induction kvs) (auto split: if_splits)

lemma size_getProp: "getProp r k \<noteq> JUndef \<Longrightarrow> size (getProp r k) < size r"
  by (cases r) (auto simp: getField_def dest: size_getField split: option.splits)

lemma size_readProp: "ownProp r k = Some v \<Longrightarrow> size (readProp env r k) < size r"
  by (cases r) (auto simp: readProp_def dest: size_getField)

lemma subnodes_self: "s \<in> subnodes s"
  by (induction s rule: subnodes.induct) auto

lemma subnodes_trans: "x \<in> subnodes y \<Longrightarrow> subnodes x \<subseteq> subnodes y"
  by (induction y rule: subnodes.induct) auto

lemma finite_subnodes: "finite (subnodes s)"
  by (induction s rule: subnodes.induct) auto

lemma finite_universe: "finite (universe fm ws)"
  by (auto simp: universe_def finite_subnodes)

lemma set_subset_universe: "set ws \<subseteq> universe fm ws"
  by (auto simp: universe_def subnodes_self)

lemma set_workSet_addAll:
  "set (workSet_addAll visited todo sels) = set todo \<union> (set sels - set visited)"
  unfolding workSet_addAll_def
  by (induction sels arbitrary: todo) (auto simp: workSet_add_def)

lemma length_workSet_addAll:
  "length (workSet_addAll visited todo sels) =
     length todo + card (set sels - set visited - set todo)"
  unfolding workSet_addAll_def
proof (induction sels arbitrary: todo)
  case Nil
  then show ?case by simp
next
  case (Cons x xs)
  show ?case
  proof (cases "x \<in> set visited \<or> x \<in> set todo")
    case True
    then have "set (x # xs) - set visited - set todo = set xs - set visited - set todo" by auto
    with True Cons show ?thesis by (simp add: workSet_add_def)
  next
    case False
    then have eq: "set (x # xs) - set visited - set todo =
        insert x (set xs - set visited - set (todo @ [x]))" by auto
    have "x \<notin> set xs - set visited - set (todo @ [x])" by simp
    then have "card (set (x # xs) - set visited - set todo) =
        Suc (card (set xs - set visited - set (todo @ [x])))"
      unfolding eq by simp
    with False Cons[of "todo @ [x]"] show ?thesis by (simp add: workSet_add_def)
  qed
qed

lemma walk_measure_skip:
  "walk_measure fm (visited @ [s]) todo < walk_measure fm visited (s # todo)"
  by (simp add: walk_measure_def)

lemma universe_closed: "x \<in> universe fm ws \<Longrightarrow> subnodes x \<subseteq> universe fm ws"
  unfolding universe_def using subnodes_trans by fastforce

lemma universe_expand:
  assumes "set sels \<subseteq> universe fm ws" "set ws \<subseteq> set ws'" "set ws' \<subseteq> set ws \<union> set sels"
  shows "universe fm ws' = universe fm ws"
proof
  show "universe fm ws \<subseteq> universe fm ws'"
    using assms(2) unfolding universe_def by auto
  have "subnodes s \<subseteq> universe fm ws" if "s \<in> set ws'" for s
  proof -
    from that assms(3) have "s \<in> set ws \<or> s \<in> set sels" by auto
    then have "s \<in> universe fm ws"
      using assms(1) set_subset_universe[of ws fm] by auto
    then show ?thesis by (rule universe_closed)
  qed
  then show "universe fm ws' \<subseteq> universe fm ws"
    unfolding universe_def by auto
qed

lemma fragment_selections_universe:
  assumes "getFragmentFromSelection s fm = Some fragment"
  shows "set (selections (fragment_selectionSet fragment)) \<subseteq> universe fm (visited @ s # todo)"
proof (cases s)
  case (Field a al n args ds ss)
  with assms show ?thesis by simp
next
  case (FragmentSpread a n ds)
  with assms obtain f where f: "map_of fm n = Some f" "fragment = Inr f" by auto
  then have "f \<in> snd ` set fm" by (metis map_of_SomeD snd_conv image_eqI)
  then show ?thesis
    using f(2) subnodes_self unfolding universe_def by fastforce
next
  case (InlineFragment a tc ds ss)
  obtain b sels where ss: "ss = SelectionSet b sels" by (cases ss)
  from assms InlineFragment have fr: "fragment = Inl s" by simp
  have "x \<in> universe fm (visited @ s # todo)" if "x \<in> set sels" for x
  proof -
    have "x \<in> subnodes s" using that subnodes_self[of x] InlineFragment ss by auto
    then show ?thesis unfolding universe_def by auto
  qed
  then show ?thesis using fr InlineFragment ss by auto
qed

lemma walk_measure_expand:
  assumes "getFragmentFromSelection s fm = Some fragment"
  shows "walk_measure fm (visited @ [s])
           (workSet_addAll (visited @ [s]) todo (selections (fragment_selectionSet fragment)))
         < walk_measure fm visited (s # todo)"
proof -
  define fs where "fs = selections (fragment_selectionSet fragment)"
  define ws where "ws = visited @ s # todo"
  define todo' where "todo' = workSet_addAll (visited @ [s]) todo fs"
  define ws' where "ws' = (visited @ [s]) @ todo'"
  define new where "new = set fs - set ws"
  define U where "U = universe fm ws"
  have fsU: "set fs \<subseteq> U"
    unfolding fs_def U_def ws_def by (rule fragment_selections_universe[OF assms])
  have set_ws': "set ws' = set ws \<union> new"
    unfolding ws'_def todo'_def new_def ws_def by (auto simp: set_workSet_addAll)
  have U': "universe fm ws' = U"
    unfolding U_def
    by (rule universe_expand[of fs]) (use fsU set_ws' in \<open>auto simp: U_def new_def\<close>)
  have finU: "finite U" unfolding U_def by (rule finite_universe)
  have new_sub: "new \<subseteq> U - set ws" using fsU unfolding new_def by auto
  have fin_new: "finite new" unfolding new_def by simp
  have "U - set ws' = (U - set ws) - new" using set_ws' by auto
  then have card': "card (U - set ws') = card (U - set ws) - card new"
    using new_sub fin_new by (simp add: card_Diff_subset)
  have le: "card new \<le> card (U - set ws)"
    using new_sub finU by (simp add: card_mono)
  have "set fs - set (visited @ [s]) - set todo = new"
    unfolding new_def ws_def by auto
  then have len: "length todo' = length todo + card new"
    unfolding todo'_def by (simp add: length_workSet_addAll)
  have "walk_measure fm (visited @ [s]) todo' = 2 * card (U - set ws') + length todo'"
    unfolding walk_measure_def using U' by (simp add: ws'_def)
  moreover have "walk_measure fm visited (s # todo) = 2 * card (U - set ws) + Suc (length todo)"
    unfolding walk_measure_def U_def ws_def by simp
  ultimately show ?thesis
    using card' le len unfolding todo'_def fs_def by linarith
qed

subsection \<open>The processor\<close>

text \<open>
  \<^verbatim>\<open>processSelectionSet\<close> (lines 153 to 341), the body of its \<^verbatim>\<open>workSet.forEach\<close> (lines
  226 to 287), \<^verbatim>\<open>processFieldValue\<close> (lines 343 to 366) and its \<^verbatim>\<open>value.map\<close>. Each returns
  what the source returns, or the error it throws, with the flag of the shared \<^verbatim>\<open>out\<close>
  object, and the state it leaves behind either way. \<^verbatim>\<open>writeToStore\<close> passes no \<^verbatim>\<open>out\<close>,
  so the default of line 160 applies there: the flag starts false. The walk returns the
  accumulator, the flag and the work set as it has walked it. A value that line 231 finds
  beyond the own properties of the result is processed like any other, one descent of the
  engine's stack deeper.
\<close>

function
  processSelectionSet ::
    "'s env \<Rightarrow> wcontext \<Rightarrow> string option \<Rightarrow> jsval \<Rightarrow> selset \<Rightarrow> bool \<Rightarrow> 's wstate
       \<Rightarrow> (error + jsval \<times> bool) \<times> 's wstate"
and forEachSelection ::
    "'s env \<Rightarrow> wcontext \<Rightarrow> jsval \<Rightarrow> jsval \<Rightarrow> selection list \<Rightarrow> selection list
       \<Rightarrow> storeObject \<Rightarrow> bool \<Rightarrow> 's wstate
       \<Rightarrow> (error + storeObject \<times> bool \<times> selection list) \<times> 's wstate"
and processFieldValue ::
    "'s env \<Rightarrow> wcontext \<Rightarrow> jsval \<Rightarrow> selection \<Rightarrow> bool \<Rightarrow> 's wstate
       \<Rightarrow> (error + jsval \<times> bool) \<times> 's wstate"
and mapItems ::
    "'s env \<Rightarrow> wcontext \<Rightarrow> jsval list \<Rightarrow> selection \<Rightarrow> bool \<Rightarrow> 's wstate
       \<Rightarrow> (error + jsval list \<times> bool) \<times> 's wstate"
where
  "processSelectionSet env ctx dataId0 result selectionSet out st =
     (let idk = identify env result selectionSet (fragmentMap ctx);
          dataId = id_or dataId0 (fst idk)
      in case alreadyWritten env ctx dataId result selectionSet st of
           (Some ref, st1) \<Rightarrow> (Inr (ref, out), st1)
         | (None, st1) \<Rightarrow>
             let typename = inferTypename env ctx dataId result selectionSet st1;
                 mergedFields = initialFields env (snd idk) typename
             in (case forEachSelection env ctx result typename []
                        (workSet_addAll [] [] (selections selectionSet)) mergedFields out st1 of
                   (Inl e, st2) \<Rightarrow> (Inl e, st2)
                 | (Inr (mergedFields', out', workSet), st2) \<Rightarrow>
                     (case dataId of
                        Some d \<Rightarrow>
                          (case commitEntity env ctx d typename mergedFields' out' st2 of
                             (entityRef, st3) \<Rightarrow> (Inr (entityRef, out'), st3))
                      | None \<Rightarrow> (Inr (JObj mergedFields', out'), st2))))"
| "forEachSelection env ctx result typename visited [] mergedFields out st =
     (Inr (mergedFields, out, visited), st)"
| "forEachSelection env ctx result typename visited (selection # todo) mergedFields out st =
     (if \<not> shouldInclude env selection (variables ctx)
      then forEachSelection env ctx result typename (visited @ [selection]) todo mergedFields out st
      else if isField selection then
        (let resultFieldKey = resultKeyNameFromField selection;
             value = readProp env result resultFieldKey
         in if value \<noteq> JUndef then
              (let storeFieldName =
                     getStoreFieldName env typename (name_value selection) selection (variables ctx)
               in case (if ownProp result resultFieldKey \<noteq> None
                        then processFieldValue env ctx value selection out st
                        else if maxDescent env = 0 then (Inl RangeError, st)
                        else processFieldValue (env\<lparr>maxDescent := maxDescent env - 1\<rparr>) ctx
                               value selection out st) of
                    (Inl e, st1) \<Rightarrow> (Inl e, st1)
                  | (Inr (incomingValue, out1), st1) \<Rightarrow>
                      if hasMergeFunction env typename (name_value selection)
                      then forEachSelection env ctx result typename (visited @ [selection]) todo
                             (merge env mergedFields
                                [(storeFieldName,
                                  FieldValueToBeMerged selection typename incomingValue)])
                             True st1
                      else forEachSelection env ctx result typename (visited @ [selection]) todo
                             (merge env mergedFields [(storeFieldName, incomingValue)])
                             out1 st1)
            else if usingPossibleTypes env \<and> \<not> hasDirectives env [''defer'', ''client''] selection
            then (Inl (missingField env resultFieldKey result), st)
            else forEachSelection env ctx result typename (visited @ [selection]) todo
                   mergedFields out st)
      else
        (case getFragmentFromSelection selection (fragmentMap ctx) of
           Some fragment \<Rightarrow>
             if fragmentMatches env fragment typename
             then forEachSelection env ctx result typename (visited @ [selection])
                    (workSet_addAll (visited @ [selection]) todo
                       (selections (fragment_selectionSet fragment)))
                    mergedFields out st
             else forEachSelection env ctx result typename (visited @ [selection]) todo
                    mergedFields out st
         | None \<Rightarrow>
             forEachSelection env ctx result typename (visited @ [selection]) todo
               mergedFields out st))"
| "processFieldValue env ctx value field out st =
     (case field_selectionSet field of
        None \<Rightarrow> (Inr (if production env then value else cloneDeep value, out), st)
      | Some selectionSet \<Rightarrow>
          if value = JNull
          then (Inr (if production env then value else cloneDeep value, out), st)
          else (case value of
                  JArr items \<Rightarrow>
                    (case mapItems env ctx items field out st of
                       (Inl e, st1) \<Rightarrow> (Inl e, st1)
                     | (Inr (items', out1), st1) \<Rightarrow> (Inr (JArr items', out1), st1))
                | _ \<Rightarrow> processSelectionSet env ctx None value selectionSet out st))"
| "mapItems env ctx [] field out st = (Inr ([], out), st)"
| "mapItems env ctx (item # items) field out st =
     (case processFieldValue env ctx item field out st of
        (Inl e, st1) \<Rightarrow> (Inl e, st1)
      | (Inr (item', out1), st1) \<Rightarrow>
          (case mapItems env ctx items field out1 st1 of
             (Inl e, st2) \<Rightarrow> (Inl e, st2)
           | (Inr (items', out2), st2) \<Rightarrow> (Inr (item' # items', out2), st2)))"
  by pat_completeness auto

termination
  apply (relation "inv_image (less_than <*lex*> less_than <*lex*> less_than <*lex*> less_than)
     (\<lambda>x. case x of
        Inl (Inl (env, ctx, dataId, result, ss, out, st)) \<Rightarrow>
          (maxDescent env, size result, 2::nat, 0::nat)
      | Inl (Inr (env, ctx, result, typename, visited, todo, acc, out, st)) \<Rightarrow>
          (maxDescent env, size result, 1, walk_measure (fragmentMap ctx) visited todo)
      | Inr (Inl (env, ctx, v, field, out, st)) \<Rightarrow> (maxDescent env, size v, 3, 0)
      | Inr (Inr (env, ctx, items, field, out, st)) \<Rightarrow>
          (maxDescent env, size_list size items, 0, 0))")
  apply (auto simp: walk_measure_skip walk_measure_expand size_readProp)
  done

declare processSelectionSet.simps [simp del]
declare processFieldValue.simps [simp del]
declare forEachSelection.simps [simp del]
declare mapItems.simps [simp del]

section \<open>The write entry point\<close>

text \<open>
  Modelled from the spec: the query document, by what \<^verbatim>\<open>getOperationDefinition\<close>,
  \<^verbatim>\<open>getDefaultValues\<close> and \<^verbatim>\<open>getFragmentDefinitions\<close> of \<^verbatim>\<open>utilities/graphql/getFromAST\<close>
  take from it: the default values of the operation's variables, the operation's selection
  set and the fragment definitions.
\<close>

record document =
  defaultValues :: storeObject
  operation_selectionSet :: selset
  fragmentDefinitions :: "fragment list"

text \<open>
  \<^verbatim>\<open>writeToStore\<close>, lines 111 to 151. The store of the options is the store of the state
  given; \<^verbatim>\<open>context.written\<close> starts empty whatever the state given holds. The value is the
  Reference or \<^verbatim>\<open>undefined\<close>.
\<close>

definition writeToStore ::
  "'s env \<Rightarrow> document \<Rightarrow> jsval \<Rightarrow> string option \<Rightarrow> storeObject option \<Rightarrow> 's wstate
     \<Rightarrow> (error + jsval) \<times> 's wstate" where
  "writeToStore env query result dataId variables0 st =
     (let variables1 = spread (defaultValues query)
                         (case variables0 of Some v \<Rightarrow> v | None \<Rightarrow> []);
          context = \<lparr>variables = variables1,
                     varString = stringify env 0 (JObj variables1),
                     fragmentMap = createFragmentMap (fragmentDefinitions query)\<rparr>
      in case processSelectionSet env context dataId
                (if truthy result then result else JBare)
                (operation_selectionSet query) False (st\<lparr>written := (\<lambda>d. [])\<rparr>) of
           (Inl e, st1) \<Rightarrow> (Inl e, st1)
         | (Inr (objOrRef, out), st1) \<Rightarrow>
             let ref = (if isReference objOrRef then objOrRef
                        else js_or (case dataId of
                                      Some d \<Rightarrow> js_and (JStr d) (makeReference d)
                                    | None \<Rightarrow> JUndef)
                                   JUndef)
             in if truthy ref
                then (case ref of
                        JRef d \<Rightarrow> (Inr ref, st1\<lparr>store := store_retain env (store st1) d\<rparr>)
                      | _ \<Rightarrow> (Inr ref, st1))
                else (Inr ref, st1))"

section \<open>The eviction jobs\<close>

text \<open>
  A job of the queue, by what the writer reads of it: its key in the queue, and the
  \<^verbatim>\<open>id\<close> and \<^verbatim>\<open>executionTime\<close> of its payload.
\<close>

record job =
  job_key :: nat
  payload_id :: string
  executionTime :: string

text \<open>
  The queue of \<^verbatim>\<open>react-native-job-queue\<close> and the clock are parameters:
  the jobs \<^verbatim>\<open>getJobs()\<close> resolves to, \<^verbatim>\<open>addJob(worker, {id, executionTime})\<close>, \<^verbatim>\<open>updateJobExecutionTime(job)\<close> with the
  success it resolves to, \<^verbatim>\<open>new Date(Number(v)).toISOString()\<close> (which throws a
  \<^verbatim>\<open>RangeError\<close> on an invalid date: \<open>None\<close>), the current time in milliseconds and
  \<^verbatim>\<open>new Date(ms).toISOString()\<close>.
\<close>

record 'q scheduler =
  getJobs :: "'q \<Rightarrow> job list"
  addJob :: "'q \<Rightarrow> string \<Rightarrow> string \<Rightarrow> string \<Rightarrow> 'q"
  updateJobExecutionTime :: "'q \<Rightarrow> job \<Rightarrow> bool \<times> 'q"
  dateOfMarker :: "jsval \<Rightarrow> string option"
  now :: int
  isoOfMillis :: "int \<Rightarrow> string"

text \<open>
  The callback of line 312, run when \<^verbatim>\<open>getJobs()\<close> has resolved to \<^verbatim>\<open>jobs\<close>, on the queue
  as it is then, with the callback of line 324 run next. An exception in the callback
  rejects the promise and leaves the queue as it is.
\<close>

definition evictionCallback ::
  "'q scheduler \<Rightarrow> string \<Rightarrow> storeObject \<Rightarrow> job list \<Rightarrow> 'q \<Rightarrow> 'q" where
  "evictionCallback sch dataId mergedFields jobs q =
     (case find (\<lambda>e. payload_id e = dataId) jobs of
        None \<Rightarrow>
          (case dateOfMarker sch (getField mergedFields ''maxAge'') of
             None \<Rightarrow> q
           | Some t \<Rightarrow> addJob sch q ''removeCacheEntry'' dataId t)
      | Some existingJob \<Rightarrow>
          (case dateOfMarker sch (getField mergedFields ''maxAge'') of
             None \<Rightarrow> q
           | Some t \<Rightarrow>
               (case updateJobExecutionTime sch q (existingJob\<lparr>executionTime := t\<rparr>) of
                  (success, q1) \<Rightarrow>
                    if \<not> success
                    then addJob sch q1 ''removeCacheEntry'' dataId
                           (isoOfMillis sch (now sch + 30000))
                    else q1)))"

text \<open>
  A call of line 312 whose promise resolves to the jobs of the queue as it is when the
  callback runs: no other callback runs in between.
\<close>

definition resolveGetJobs :: "'q scheduler \<Rightarrow> string \<times> storeObject \<Rightarrow> 'q \<Rightarrow> 'q" where
  "resolveGetJobs sch call q = evictionCallback sch (fst call) (snd call) (getJobs sch q) q"

section \<open>Sample collaborators\<close>

text \<open>
  Modelled from the spec: the Merge Function (section 4.3), standing for the merger of
  \<^verbatim>\<open>makeProcessedFieldsMerger\<close> and for the store's merge. Two objects merge key by key, a
  key of both recursively, a key of one as it is; a Reference on either side and anything
  that is not an object (a sequence, a scalar) is replaced by the incoming value.
\<close>

function (sequential) mergeValue :: "jsval \<Rightarrow> jsval \<Rightarrow> jsval"
and mergeObjects :: "storeObject \<Rightarrow> storeObject \<Rightarrow> storeObject" where
  "mergeValue (JObj a) (JObj b) = JObj (mergeObjects a b)"
| "mergeValue existing incoming = incoming"
| "mergeObjects a [] = a"
| "mergeObjects a ((k, v) # b) =
     mergeObjects
       (case map_of a k of
          None \<Rightarrow> a @ [(k, v)]
        | Some old \<Rightarrow> setField a k (mergeValue old v))
       b"
  by pat_completeness auto

termination
  by (relation "measure (\<lambda>x. case x of
          Inl (existing, incoming) \<Rightarrow> size incoming
        | Inr (a, b) \<Rightarrow> size_list (size_prod (\<lambda>x. 0) size) b)")
     auto

text \<open>
  Modelled from the spec: a store (section 6) of entity records by identifier, with the
  identifiers retained as roots. \<^verbatim>\<open>get\<close> reads a field of a record, \<^verbatim>\<open>merge\<close> deep-merges
  into a record, \<^verbatim>\<open>retain\<close> marks a root, and the field accessor reads through a
  Reference into the store and reads any other object directly (line 380 calls it with
  either).
\<close>

record sstore =
  entities :: "(string \<times> storeObject) list"
  rootIds :: "string list"

definition sstore_get :: "sstore \<Rightarrow> string \<Rightarrow> string \<Rightarrow> jsval" where
  "sstore_get s d k = (case map_of (entities s) d of Some r \<Rightarrow> getField r k | None \<Rightarrow> JUndef)"

definition sstore_merge :: "sstore \<Rightarrow> string \<Rightarrow> storeObject \<Rightarrow> sstore" where
  "sstore_merge s d incoming =
     s\<lparr>entities :=
         (case map_of (entities s) d of
            Some r \<Rightarrow> map (\<lambda>e. if fst e = d then (d, mergeObjects r incoming) else e) (entities s)
          | None \<Rightarrow> entities s @ [(d, mergeObjects [] incoming)])\<rparr>"

definition sstore_retain :: "sstore \<Rightarrow> string \<Rightarrow> sstore" where
  "sstore_retain s d = s\<lparr>rootIds := rootIds s @ [d]\<rparr>"

definition sstore_getFieldValue :: "sstore \<Rightarrow> jsval \<Rightarrow> string \<Rightarrow> jsval" where
  "sstore_getFieldValue s objOrRef k =
     (case objOrRef of
        JRef d \<Rightarrow> sstore_get s d k
      | _ \<Rightarrow> getProp objOrRef k)"

text \<open>
  Modelled from the spec: policies and helpers in their default configuration. An object
  with a string \<^verbatim>\<open>__typename\<close> and a string \<^verbatim>\<open>id\<close> is the entity \<^verbatim>\<open>typename:id\<close> with
  \<^verbatim>\<open>id\<close> as its key field (section 8 writes \<^verbatim>\<open>Todo:1\<close>); \<^verbatim>\<open>ROOT_QUERY\<close> has the type
  \<^verbatim>\<open>Query\<close>; a field without arguments is stored under its name and one with arguments under
  its name followed by the bracketed argument names; no field has a custom merge function;
  a fragment matches when it has no type condition or its type condition is the typename;
  \<^verbatim>\<open>skip\<close> and \<^verbatim>\<open>include\<close> decide inclusion from a literal or a variable; a selection has
  a directive when one of its own directives bears the name.
\<close>

definition sample_identify :: "jsval \<Rightarrow> selset \<Rightarrow> fragmentMap \<Rightarrow> string option \<times> storeObject option" where
  "sample_identify result selectionSet fm =
     (case (getProp result ''__typename'', getProp result ''id'') of
        (JStr t, JStr i) \<Rightarrow> (Some (t @ '':'' @ i), Some [(''id'', JStr i)])
      | _ \<Rightarrow> (None, None))"

definition sample_getStoreFieldName :: "jsval \<Rightarrow> string \<Rightarrow> selection \<Rightarrow> storeObject \<Rightarrow> string" where
  "sample_getStoreFieldName typename fieldName field vars =
     (case field of
        Field a al n args ds ss \<Rightarrow>
          if args = [] then fieldName
          else fieldName @ ''('' @ concat (map (\<lambda>kv. fst kv @ '':'') args) @ '')''
      | _ \<Rightarrow> fieldName)"

definition sample_fieldNameFromStoreName :: "string \<Rightarrow> string" where
  "sample_fieldNameFromStoreName storeFieldName = takeWhile (\<lambda>c. c \<noteq> CHR ''('') storeFieldName"

fun typeCondition :: "selection + fragment \<Rightarrow> string option" where
  "typeCondition (Inr (FragmentDefinition a n tc ds ss)) = Some tc"
| "typeCondition (Inl (InlineFragment a tc ds ss)) = tc"
| "typeCondition (Inl s) = None"

definition sample_fragmentMatches :: "selection + fragment \<Rightarrow> jsval \<Rightarrow> bool" where
  "sample_fragmentMatches fragment typename =
     (case typeCondition fragment of None \<Rightarrow> True | Some tc \<Rightarrow> typename = JStr tc)"

fun directives :: "selection \<Rightarrow> directive list" where
  "directives (Field a al n args ds ss) = ds"
| "directives (FragmentSpread a n ds) = ds"
| "directives (InlineFragment a tc ds ss) = ds"

fun directive_name :: "directive \<Rightarrow> string" where
  "directive_name (Directive n args) = n"

fun directive_if :: "directive \<Rightarrow> storeObject \<Rightarrow> bool" where
  "directive_if (Directive n args) vars =
     (case map_of args ''if'' of
        Some (BoolLit b) \<Rightarrow> b
      | Some (Variable x) \<Rightarrow> truthy (getField vars x)
      | _ \<Rightarrow> False)"

definition sample_shouldInclude :: "selection \<Rightarrow> storeObject \<Rightarrow> bool" where
  "sample_shouldInclude selection vars =
     list_all (\<lambda>d.
        if directive_name d = ''skip'' then \<not> directive_if d vars
        else if directive_name d = ''include'' then directive_if d vars
        else True)
       (directives selection)"

definition sample_hasDirectives :: "string list \<Rightarrow> selection \<Rightarrow> bool" where
  "sample_hasDirectives names selection =
     list_ex (\<lambda>d. directive_name d \<in> set names) (directives selection)"

text \<open>
  Modelled from the spec: \<^verbatim>\<open>String(v)\<close> and a snapshot of a value, for the strings and
  \<^verbatim>\<open>undefined\<close> that a typename is, and for the keys of an object.
\<close>

fun sample_toString :: "jsval \<Rightarrow> string" where
  "sample_toString (JStr s) = s"
| "sample_toString JUndef = ''undefined''"
| "sample_toString JNull = ''null''"
| "sample_toString (JBool b) = (if b then ''true'' else ''false'')"
| "sample_toString (JNum n) = (if n < 0 then ''-'' else []) @ string_of_nat (nat \<bar>n\<bar>)"
| "sample_toString (JArr xs) = ''[array]''"
| "sample_toString v = ''[object Object]''"

fun sample_stringify :: "nat \<Rightarrow> jsval \<Rightarrow> string" where
  "sample_stringify indent (JObj kvs) =
     ''{'' @ concat (map (\<lambda>kv. [CHR 0x22] @ fst kv @ [CHR 0x22] @ '','') kvs) @ ''}''"
| "sample_stringify indent v = sample_toString v"

text \<open>
  Modelled from the spec: the engine, by the properties that every value but
  \<^verbatim>\<open>undefined\<close> and \<^verbatim>\<open>null\<close> inherits from \<^verbatim>\<open>Object.prototype\<close>, each an object of the
  runtime, and by the \<^verbatim>\<open>length\<close> of a string.
\<close>

definition objectPrototypeKeys :: "string list" where
  "objectPrototypeKeys =
     [''constructor'', ''toString'', ''toLocaleString'', ''valueOf'', ''hasOwnProperty'',
      ''isPrototypeOf'', ''propertyIsEnumerable'', ''__proto__'', ''__defineGetter__'',
      ''__defineSetter__'', ''__lookupGetter__'', ''__lookupSetter__'']"

definition sample_runtimeProperty :: "jsval \<Rightarrow> string \<Rightarrow> jsval" where
  "sample_runtimeProperty v k =
     (case v of
        JUndef \<Rightarrow> JUndef
      | JNull \<Rightarrow> JUndef
      | JStr s \<Rightarrow>
          if k = ''length'' then JNum (int (length s))
          else if k \<in> set objectPrototypeKeys then JNative k else JUndef
      | _ \<Rightarrow> if k \<in> set objectPrototypeKeys then JNative k else JUndef)"

definition sample_env :: "sstore env" where
  "sample_env =
     \<lparr>identify = sample_identify,
      rootTypenamesById = (\<lambda>d. if d = ''ROOT_QUERY'' then JStr ''Query'' else JUndef),
      getStoreFieldName = sample_getStoreFieldName,
      hasMergeFunction = (\<lambda>typename fieldName. False),
      usingPossibleTypes = True,
      fragmentMatches = sample_fragmentMatches,
      applyMerges = (\<lambda>entityRef mergedFields context st. mergedFields),
      reader_isFresh = None,
      merge = mergeObjects,
      shouldInclude = sample_shouldInclude,
      hasDirectives = sample_hasDirectives,
      getTypenameFromResult = (\<lambda>result selectionSet fm. getProp result ''__typename''),
      fieldNameFromStoreName = sample_fieldNameFromStoreName,
      store_get = sstore_get,
      store_merge = sstore_merge,
      store_retain = sstore_retain,
      store_getFieldValue = sstore_getFieldValue,
      equal_js = (=),
      stringify = sample_stringify,
      toString = sample_toString,
      production = False,
      runtimeProperty = sample_runtimeProperty,
      maxDescent = 64\<rparr>"

definition sample_context :: wcontext where
  "sample_context = \<lparr>variables = [], varString = ''{}'', fragmentMap = []\<rparr>"

definition empty_store :: sstore where
  "empty_store = \<lparr>entities = [], rootIds = []\<rparr>"

definition initial_state :: "sstore \<Rightarrow> sstore wstate" where
  "initial_state s =
     \<lparr>store = s, written = (\<lambda>d. []), warnings = [], warned = [], getJobsCalls = []\<rparr>"

text \<open>
  Modelled from the spec: a scheduler (section 6) that keeps its jobs in the order added.
  A new job takes the next free key; an update replaces the job of the same key and
  succeeds when there is one. The marker is a number of milliseconds; dates are written
  as that number.
\<close>

record squeue =
  jobs :: "job list"
  next_key :: nat

definition squeue_addJob :: "squeue \<Rightarrow> string \<Rightarrow> string \<Rightarrow> string \<Rightarrow> squeue" where
  "squeue_addJob q worker d t =
     \<lparr>jobs = jobs q @ [\<lparr>job_key = next_key q, payload_id = d, executionTime = t\<rparr>],
      next_key = Suc (next_key q)\<rparr>"

definition squeue_update :: "squeue \<Rightarrow> job \<Rightarrow> bool \<times> squeue" where
  "squeue_update q j =
     (if job_key j \<in> job_key ` set (jobs q)
      then (True, q\<lparr>jobs := map (\<lambda>e. if job_key e = job_key j then j else e) (jobs q)\<rparr>)
      else (False, q))"

definition sample_dateOfMarker :: "jsval \<Rightarrow> string option" where
  "sample_dateOfMarker v = (case v of JNum n \<Rightarrow> Some (sample_toString (JNum n)) | _ \<Rightarrow> None)"

definition sample_scheduler :: "int \<Rightarrow> squeue scheduler" where
  "sample_scheduler t0 =
     \<lparr>getJobs = jobs,
      addJob = squeue_addJob,
      updateJobExecutionTime = squeue_update,
      dateOfMarker = sample_dateOfMarker,
      now = t0,
      isoOfMillis = (\<lambda>n. sample_toString (JNum n))\<rparr>"

text \<open>The same scheduler with a queue that refuses every update.\<close>

definition refusing_scheduler :: "int \<Rightarrow> squeue scheduler" where
  "refusing_scheduler t0 = (sample_scheduler t0)\<lparr>updateJobExecutionTime := (\<lambda>q j. (False, q))\<rparr>"

text \<open>
  Sample inputs: a Todo entity, the selection set \<^verbatim>\<open>{ id text }\<close> as two different
  objects of the document, and the state before the first write.
\<close>

definition S_todo :: selset where
  "S_todo = SelectionSet 1 [Field 2 None ''id'' [] [] None, Field 3 None ''text'' [] [] None]"

definition S_todo' :: selset where
  "S_todo' = SelectionSet 4 [Field 5 None ''id'' [] [] None, Field 6 None ''text'' [] [] None]"

definition todo1 :: jsval where
  "todo1 = JObj [(''__typename'', JStr ''Todo''), (''id'', JStr ''1''), (''text'', JStr ''a'')]"

definition state0 :: "sstore wstate" where
  "state0 = initial_state empty_store"

text \<open>
  Fields of a Todo, one absent from \<^const>\<open>todo1\<close>, one absent and skipped, one skipped; a
  Todo whose text is \<^verbatim>\<open>null\<close>; and the query document of an operation with the given
  selections and no fragment.
\<close>

definition F_id :: selection where "F_id = Field 2 None ''id'' [] [] None"
definition F_text :: selection where "F_text = Field 3 None ''text'' [] [] None"

definition query_of :: "selection list \<Rightarrow> document" where
  "query_of sels =
     \<lparr>defaultValues = [], operation_selectionSet = SelectionSet 10 sels, fragmentDefinitions = []\<rparr>"

definition todo_null :: jsval where
  "todo_null = JObj [(''__typename'', JStr ''Todo''), (''id'', JStr ''1''), (''text'', JNull)]"

definition F_text_skipped :: selection where
  "F_text_skipped = Field 11 None ''text'' [] [Directive ''skip'' [(''if'', BoolLit True)]] None"

text \<open>An object without identity and the selection set \<^verbatim>\<open>{ text }\<close>.\<close>

definition anonymous :: jsval where
  "anonymous = JObj [(''text'', JStr ''a'')]"

definition S_text :: selset where
  "S_text = SelectionSet 12 [F_text]"

text \<open>A field \<^verbatim>\<open>todos { id text }\<close> whose selection set is the first of the two.\<close>

definition F_todos :: selection where
  "F_todos = Field 7 None ''todos'' [] [] (Some S_todo)"

section \<open>What a write records\<close>

text \<open>
  The order on states in which \<^verbatim>\<open>context.written\<close> only gains entries and, when no
  entry is recorded twice, none is afterwards.
\<close>

definition grows :: "'s wstate \<Rightarrow> 's wstate \<Rightarrow> bool" where
  "grows st st' \<longleftrightarrow>
     (\<forall>d. set (written st d) \<subseteq> set (written st' d)) \<and>
     ((\<forall>d. distinct (written st d)) \<longrightarrow> (\<forall>d. distinct (written st' d)))"

text \<open>The record that line 335 hands to \<^verbatim>\<open>store.merge\<close> (lines 292 to 294).\<close>

definition committedFields ::
  "'s env \<Rightarrow> wcontext \<Rightarrow> string \<Rightarrow> storeObject \<Rightarrow> bool \<Rightarrow> 's wstate \<Rightarrow> storeObject" where
  "committedFields env ctx d mergedFields out st =
     (if out then applyMerges env (makeReference d) mergedFields ctx st else mergedFields)"

text \<open>
  What \<^verbatim>\<open>writeToStore\<close> passes to \<^verbatim>\<open>processSelectionSet\<close>: the context of lines 130 to
  139, the result of line 127, and with them the identifier of the root object, the
  explicit one or else the one the policies compute (line 173).
\<close>

definition rootContext :: "'s env \<Rightarrow> document \<Rightarrow> storeObject option \<Rightarrow> wcontext" where
  "rootContext env query vars =
     \<lparr>variables = spread (defaultValues query) (case vars of Some x \<Rightarrow> x | None \<Rightarrow> []),
      varString = stringify env 0
        (JObj (spread (defaultValues query) (case vars of Some x \<Rightarrow> x | None \<Rightarrow> []))),
      fragmentMap = createFragmentMap (fragmentDefinitions query)\<rparr>"

definition rootResult :: "jsval \<Rightarrow> jsval" where
  "rootResult root = (if truthy root then root else JBare)"

definition rootId :: "'s env \<Rightarrow> document \<Rightarrow> jsval \<Rightarrow> string option \<Rightarrow> storeObject option \<Rightarrow> string option" where
  "rootId env query root dataId vars =
     id_or dataId (fst (identify env (rootResult root) (operation_selectionSet query)
                          (fragmentMap (rootContext env query vars))))"

text \<open>
  An element of the sequence that \<^verbatim>\<open>processFieldValue\<close> returns is what
  \<^verbatim>\<open>processFieldValue\<close> returns for the element at the same index, in the state the
  elements before it have left.
\<close>

definition itemwise :: "'s env \<Rightarrow> wcontext \<Rightarrow> selection \<Rightarrow> jsval \<Rightarrow> jsval \<Rightarrow> bool" where
  "itemwise env ctx field item item' \<longleftrightarrow>
     (\<exists>out st out' st'. processFieldValue env ctx item field out st = (Inr (item', out'), st'))"

section \<open>Properties of the writer\<close>

subsection \<open>State relations kept by every function of the writer\<close>

lemma grows_refl: "grows st st"
  by (simp add: grows_def)

lemma grows_trans: "grows a b \<Longrightarrow> grows b c \<Longrightarrow> grows a c"
  unfolding grows_def by (meson subset_trans)

lemma written_warnAboutDataLoss:
  "written (warnAboutDataLoss env r m k st) = written st"
  by (simp add: warnAboutDataLoss_def Let_def)

lemma written_warnAll: "written (warnAll env r t m st) = written st"
proof -
  have "written (foldl (\<lambda>s k. if \<not> hasMergeFunction env t (fieldNameFromStoreName env k)
        then warnAboutDataLoss env r m k s else s) st ks) = written st" for ks
    by (induction ks arbitrary: st) (simp_all add: written_warnAboutDataLoss)
  then show ?thesis by (simp add: warnAll_def Let_def)
qed

lemma written_commitEntity:
  "written (snd (commitEntity env ctx d t m out st)) = written st"
  by (simp add: commitEntity_def Let_def written_warnAll)

lemma grows_commitEntity: "commitEntity env ctx d t m out st = (r, st') \<Longrightarrow> grows st st'"
  using written_commitEntity[of env ctx d t m out st] by (simp add: grows_def)

lemma grows_alreadyWritten:
  "alreadyWritten env ctx dataId result S st = (r, st') \<Longrightarrow> grows st st'"
  by (auto simp: alreadyWritten_def grows_def Let_def split: option.splits if_splits)


lemma writer_state_rel:
  fixes G :: "'s wstate \<Rightarrow> 's wstate \<Rightarrow> bool"
  assumes G_refl: "\<And>s. G s s"
    and G_trans: "\<And>a b c. G a b \<Longrightarrow> G b c \<Longrightarrow> G a c"
    and G_aw: "\<And>(env :: 's env) ctx dataId result S st r st'.
        alreadyWritten env ctx dataId result S st = (r, st') \<Longrightarrow> G st st'"
    and G_ce: "\<And>(env :: 's env) ctx d t m out st r st'.
        commitEntity env ctx d t m out st = (r, st') \<Longrightarrow> G st st'"
  shows "G st (snd (processSelectionSet env ctx dataId0 result selectionSet out st))"
    and "G st (snd (forEachSelection env ctx result typename visited todo mergedFields out st))"
    and "G st (snd (processFieldValue env ctx v field out st))"
    and "G st (snd (mapItems env ctx items field out st))"
proof (induction env ctx dataId0 result selectionSet out st
        and env ctx result typename visited todo mergedFields out st
        and env ctx v field out st
        and env ctx items field out st
        rule: processSelectionSet_forEachSelection_processFieldValue_mapItems.induct)
  case (1 env ctx dataId0 result selectionSet out st)
  let ?idk = "identify env result selectionSet (fragmentMap ctx)"
  let ?dataId = "id_or dataId0 (fst ?idk)"
  obtain r st1 where aw: "alreadyWritten env ctx ?dataId result selectionSet st = (r, st1)"
    by (cases "alreadyWritten env ctx ?dataId result selectionSet st")
  have g1: "G st st1" using aw by (rule G_aw)
  show ?case
  proof (cases r)
    case (Some ref)
    with aw g1 show ?thesis by (simp add: processSelectionSet.simps Let_def)
  next
    case None
    let ?typename = "inferTypename env ctx ?dataId result selectionSet st1"
    let ?walk = "forEachSelection env ctx result ?typename []
                   (workSet_addAll [] [] (selections selectionSet))
                   (initialFields env (snd ?idk) ?typename) out st1"
    have g2: "G st1 (snd ?walk)"
      using "1.IH"[OF refl refl aw[unfolded None, symmetric] refl refl refl] None by simp
    obtain w st2 where walk: "?walk = (w, st2)" by (cases ?walk)
    have g12: "G st st2" using g1 g2 walk G_trans by auto
    show ?thesis
    proof (cases w)
      case (Inl e)
      with aw None walk g12 show ?thesis by (simp add: processSelectionSet.simps Let_def)
    next
      case (Inr b)
      obtain m out' ws where b: "b = (m, out', ws)" by (cases b)
      show ?thesis
      proof (cases ?dataId)
        case None': None
        with aw None walk g12 Inr b show ?thesis
          by (simp add: processSelectionSet.simps Let_def)
      next
        case (Some d)
        obtain ref st3 where ce: "commitEntity env ctx d ?typename m out' st2 = (ref, st3)"
          by (cases "commitEntity env ctx d ?typename m out' st2")
        have "G st2 st3" using ce by (rule G_ce)
        then have "G st st3" using g12 G_trans by blast
        with aw None walk Inr b Some ce show ?thesis
          by (simp add: processSelectionSet.simps Let_def)
      qed
    qed
  qed
next
  case (2 env ctx result typename visited mergedFields out st)
  then show ?case by (simp add: forEachSelection.simps G_refl)
next
  case (3 env ctx result typename visited selection todo mergedFields out st)
  note IH = "3.IH"
  show ?case
  proof (cases "shouldInclude env selection (variables ctx)")
    case False
    then show ?thesis using IH(1)[OF _] by (simp add: forEachSelection.simps(2))
  next
    case inc: True
    then have nn: "\<not> \<not> shouldInclude env selection (variables ctx)" by simp
    show ?thesis
    proof (cases "isField selection")
      case fld: True
      let ?k = "resultKeyNameFromField selection"
      let ?v = "readProp env result ?k"
      let ?env' = "env\<lparr>maxDescent := maxDescent env - 1\<rparr>"
      let ?pv = "if ownProp result ?k \<noteq> None
                 then processFieldValue env ctx ?v selection out st
                 else if maxDescent env = 0 then (Inl RangeError, st)
                 else processFieldValue ?env' ctx ?v selection out st"
      show ?thesis
      proof (cases "?v = JUndef")
        case True
        then have nd: "\<not> ?v \<noteq> JUndef" by simp
        show ?thesis
        proof (cases "usingPossibleTypes env \<and> \<not> hasDirectives env [''defer'', ''client''] selection")
          case True
          with inc fld \<open>?v = JUndef\<close> show ?thesis
            by (simp add: forEachSelection.simps(2) Let_def G_refl)
        next
          case False
          with inc fld \<open>?v = JUndef\<close> IH(6)[OF nn fld refl refl nd False] show ?thesis
            by (simp add: forEachSelection.simps(2) Let_def G_refl)
        qed
      next
        case def: False
        have r: "G st (snd ?pv)"
        proof (cases "ownProp result ?k \<noteq> None")
          case True
          then show ?thesis using IH(2)[OF nn fld refl refl def refl True] by simp
        next
          case own: False
          show ?thesis
          proof (cases "maxDescent env = 0")
            case True
            with own show ?thesis by (simp add: G_refl)
          next
            case False
            with own show ?thesis using IH(3)[OF nn fld refl refl def refl own False] by simp
          qed
        qed
        obtain x st1 where pfv: "?pv = (x, st1)" by (cases ?pv)
        have g1: "G st st1" using r pfv by simp
        have unfold: "forEachSelection env ctx result typename visited (selection # todo)
            mergedFields out st =
          (case ?pv of
             (Inl e, st1) \<Rightarrow> (Inl e, st1)
           | (Inr (incomingValue, out1), st1) \<Rightarrow>
               if hasMergeFunction env typename (name_value selection)
               then forEachSelection env ctx result typename (visited @ [selection]) todo
                      (merge env mergedFields
                         [(getStoreFieldName env typename (name_value selection) selection
                             (variables ctx),
                           FieldValueToBeMerged selection typename incomingValue)])
                      True st1
               else forEachSelection env ctx result typename (visited @ [selection]) todo
                      (merge env mergedFields
                         [(getStoreFieldName env typename (name_value selection) selection
                             (variables ctx), incomingValue)])
                      out1 st1)"
          using inc fld def by (simp add: forEachSelection.simps(2) Let_def)
        show ?thesis
        proof (cases x)
          case (Inl e)
          with pfv g1 show ?thesis unfolding unfold by simp
        next
          case (Inr b)
          obtain v' out1 where b: "b = (v', out1)" by (cases b)
          show ?thesis
          proof (cases "hasMergeFunction env typename (name_value selection)")
            case True
            have "G st1 (snd (forEachSelection env ctx result typename (visited @ [selection]) todo
                    (merge env mergedFields
                       [(getStoreFieldName env typename (name_value selection) selection (variables ctx),
                         FieldValueToBeMerged selection typename v')]) True st1))"
              using IH(4)[OF nn fld refl refl def refl pfv[symmetric] Inr b[symmetric] True] .
            then show ?thesis
              using pfv Inr b True g1 G_trans unfolding unfold by simp
          next
            case False
            have "G st1 (snd (forEachSelection env ctx result typename (visited @ [selection]) todo
                    (merge env mergedFields
                       [(getStoreFieldName env typename (name_value selection) selection (variables ctx),
                         v')]) out1 st1))"
              using IH(5)[OF nn fld refl refl def refl pfv[symmetric] Inr b[symmetric] False] .
            then show ?thesis
              using pfv Inr b False g1 G_trans unfolding unfold by simp
          qed
        qed
      qed
    next
      case nf: False
      show ?thesis
      proof (cases "getFragmentFromSelection selection (fragmentMap ctx)")
        case None
        with inc nf IH(7)[OF nn nf None] show ?thesis
          by (simp add: forEachSelection.simps(2) Let_def)
      next
        case (Some fragment)
        show ?thesis
        proof (cases "fragmentMatches env fragment typename")
          case True
          with inc nf Some IH(8)[OF nn nf Some True] show ?thesis
            by (simp add: forEachSelection.simps(2) Let_def)
        next
          case False
          with inc nf Some IH(9)[OF nn nf Some False] show ?thesis
            by (simp add: forEachSelection.simps(2) Let_def)
        qed
      qed
    qed
  qed
next
  case (4 env ctx "value" field out st)
  show ?case
  proof (cases "field_selectionSet field")
    case None
    then show ?thesis by (simp add: processFieldValue.simps G_refl)
  next
    case (Some ss)
    show ?thesis
    proof (cases "value = JNull")
      case True
      with Some show ?thesis by (simp add: processFieldValue.simps G_refl)
    next
      case nn: False
      show ?thesis
      proof (cases "value")
        case (JArr items)
        have "G st (snd (mapItems env ctx items field out st))"
          using "4.IH"(6)[OF Some nn JArr] .
        then show ?thesis using Some nn JArr
          by (auto simp: processFieldValue.simps split: prod.splits sum.splits)
      qed (use Some nn "4.IH"(1,2,3,4,5,7,8,9,10,11)[OF Some nn _] in
            \<open>simp_all add: processFieldValue.simps\<close>)
    qed
  qed
next
  case (5 env ctx field out st)
  then show ?case by (simp add: mapItems.simps G_refl)
next
  case (6 env ctx item items field out st)
  have r: "G st (snd (processFieldValue env ctx item field out st))"
    using "6.IH"(1) .
  obtain x st1 where pfv: "processFieldValue env ctx item field out st = (x, st1)"
    by (cases "processFieldValue env ctx item field out st")
  have g1: "G st st1" using r pfv by simp
  show ?case
  proof (cases x)
    case (Inl e)
    with pfv g1 show ?thesis by (simp add: mapItems.simps)
  next
    case (Inr b)
    obtain v' out1 where b: "b = (v', out1)" by (cases b)
    have "G st1 (snd (mapItems env ctx items field out1 st1))"
      using "6.IH"(2)[OF pfv[symmetric] Inr b[symmetric]] .
    then have "G st (snd (mapItems env ctx items field out1 st1))"
      using g1 G_trans by blast
    then show ?thesis using pfv Inr b
      by (auto simp: mapItems.simps split: prod.splits sum.splits)
  qed
qed

lemma grows_all:
  "grows st (snd (processSelectionSet env ctx dataId0 result selectionSet out st))"
  "grows st (snd (forEachSelection env ctx result typename visited todo mergedFields out st))"
  "grows st (snd (processFieldValue env ctx v field out st))"
  "grows st (snd (mapItems env ctx items field out st))"
     apply (rule writer_state_rel[where G = grows]; (rule grows_refl | erule grows_trans | erule grows_alreadyWritten | erule grows_commitEntity); assumption?)+
  done

subsection \<open>The guard against processing an entity twice\<close>

lemma count_list_distinct: "distinct xs \<Longrightarrow> x \<in> set xs \<Longrightarrow> count_list xs x = 1"
  by (induction xs) auto

lemma alreadyWritten_records:
  "alreadyWritten env ctx (Some d) result S st = (r, st1) \<Longrightarrow> S \<in> set (written st1 d)"
  by (auto simp: alreadyWritten_def Let_def split: option.splits if_splits)

lemma alreadyWritten_hit:
  "S \<in> set (written st d) \<Longrightarrow>
     alreadyWritten env ctx (Some d) result S st = (Some (makeReference d), st)"
  by (simp add: alreadyWritten_def Let_def)

lemma alreadyWritten_new:
  "S \<notin> set (written st d) \<Longrightarrow> alreadyWritten env ctx (Some d) result S st = (r, st1) \<Longrightarrow>
     written st1 d = written st d @ [S]"
  by (auto simp: alreadyWritten_def Let_def split: option.splits if_splits)

lemma processSelectionSet_after_alreadyWritten:
  assumes "alreadyWritten env ctx (id_or dataId0 (fst (identify env result S (fragmentMap ctx))))
             result S st = (r, st1)"
  shows "grows st1 (snd (processSelectionSet env ctx dataId0 result S out st))"
proof (cases r)
  case (Some ref)
  with assms show ?thesis by (simp add: processSelectionSet.simps Let_def grows_refl)
next
  case None
  let ?idk = "identify env result S (fragmentMap ctx)"
  let ?dataId = "id_or dataId0 (fst ?idk)"
  let ?typename = "inferTypename env ctx ?dataId result S st1"
  let ?walk = "forEachSelection env ctx result ?typename []
                 (workSet_addAll [] [] (selections S))
                 (initialFields env (snd ?idk) ?typename) out st1"
  obtain w st2 where walk: "?walk = (w, st2)" by (cases ?walk)
  have "grows st1 (snd ?walk)" by (rule grows_all(2))
  then have g: "grows st1 st2" using walk by simp
  show ?thesis
  proof (cases w)
    case (Inl e)
    with assms None walk g show ?thesis by (simp add: processSelectionSet.simps Let_def)
  next
    case (Inr b)
    obtain m out' ws where b: "b = (m, out', ws)" by (cases b)
    show ?thesis
    proof (cases ?dataId)
      case None': None
      with assms None walk g Inr b show ?thesis by (simp add: processSelectionSet.simps Let_def)
    next
      case (Some d)
      obtain ref st3 where ce: "commitEntity env ctx d ?typename m out' st2 = (ref, st3)"
        by (cases "commitEntity env ctx d ?typename m out' st2")
      have "grows st2 st3" using ce by (rule grows_commitEntity)
      then have "grows st1 st3" using g grows_trans by blast
      with assms None walk Inr b Some ce show ?thesis
        by (simp add: processSelectionSet.simps Let_def)
    qed
  qed
qed

lemma processSelectionSet_records:
  assumes "id_or dataId0 (fst (identify env result S (fragmentMap ctx))) = Some d"
  shows "S \<in> set (written (snd (processSelectionSet env ctx dataId0 result S out st)) d)"
proof -
  obtain r st1 where aw: "alreadyWritten env ctx (Some d) result S st = (r, st1)"
    by (cases "alreadyWritten env ctx (Some d) result S st")
  have "S \<in> set (written st1 d)" using aw by (rule alreadyWritten_records)
  moreover have "grows st1 (snd (processSelectionSet env ctx dataId0 result S out st))"
    using processSelectionSet_after_alreadyWritten[of env ctx dataId0 result S st r st1 out] aw assms
    by simp
  ultimately show ?thesis unfolding grows_def by blast
qed

lemma processSelectionSet_hit:
  assumes "id_or dataId0 (fst (identify env result S (fragmentMap ctx))) = Some d"
    and "S \<in> set (written st d)"
  shows "processSelectionSet env ctx dataId0 result S out st = (Inr (makeReference d, out), st)"
  using assms by (simp add: processSelectionSet.simps Let_def alreadyWritten_hit)

lemma processSelectionSet_miss:
  assumes "id_or dataId0 (fst (identify env result S (fragmentMap ctx))) = Some d"
    and "S \<notin> set (written st d)"
  shows "processSelectionSet env ctx dataId0 result S out st =
     (let st1 = st\<lparr>written := (written st)(d := written st d @ [S])\<rparr> in
      if (case reader_isFresh env of
            Some isFresh \<Rightarrow> isFresh result (makeReference d) S ctx st1
          | None \<Rightarrow> False)
      then (Inr (makeReference d, out), st1)
      else
        (let typename = inferTypename env ctx (Some d) result S st1 in
         case forEachSelection env ctx result typename [] (workSet_addAll [] [] (selections S))
                (initialFields env (snd (identify env result S (fragmentMap ctx))) typename)
                out st1 of
           (Inl e, st2) \<Rightarrow> (Inl e, st2)
         | (Inr (mergedFields, out', workSet), st2) \<Rightarrow>
             (Inr (makeReference d, out'),
              snd (commitEntity env ctx d typename mergedFields out' st2))))"
  using assms
  by (auto simp: processSelectionSet.simps alreadyWritten_def Let_def commitEntity_def
      split: prod.splits sum.splits option.splits)

text \<open>
  Claim C1. Once a selection-set object \<open>S\<close> has been applied to the identifier \<open>d\<close> in a
  write, applying the same object to \<open>d\<close> again at any later point of that write (the
  states of a write only grow in \<^const>\<open>grows\<close>, by \<open>grows_all\<close>) returns the Reference to
  \<open>d\<close> at once: the state is untouched, so no field is walked, nothing is merged and
  nothing is committed; and when no entry of \<^verbatim>\<open>written\<close> was recorded twice at the start,
  \<open>S\<close> is recorded exactly once. The comparison is identity of the object: a selection set
  \<open>S'\<close> at another address, not yet applied to \<open>d\<close>, is not stopped. The call records it
  and goes on to lines 191 to 341 with it: it walks the selections of \<open>S'\<close> from the key
  fields and commits the record under \<open>d\<close>, once (the freshness shortcut of line 191, when
  there is a reader and it reports the result fresh, returns before the walk with \<open>S'\<close>
  recorded). Afterwards both objects are recorded for \<open>d\<close>.
\<close>

theorem no_double_processing:
  assumes first: "id_or dataIdA (fst (identify env resultA S (fragmentMap ctx))) = Some d"
    and stA_def: "stA = snd (processSelectionSet env ctx dataIdA resultA S outA st)"
    and later: "grows stA stB"
    and second: "id_or dataIdB (fst (identify env resultB S (fragmentMap ctx))) = Some d"
    and other: "id_or dataIdC (fst (identify env resultC S' (fragmentMap ctx))) = Some d"
  shows "processSelectionSet env ctx dataIdB resultB S outB stB = (Inr (makeReference d, outB), stB)
       \<and> ((\<forall>d'. distinct (written st d')) \<longrightarrow> count_list (written stB d) S = 1)
       \<and> (S' \<notin> set (written stB d) \<longrightarrow>
            processSelectionSet env ctx dataIdC resultC S' outC stB =
              (let st1 = stB\<lparr>written := (written stB)(d := written stB d @ [S'])\<rparr> in
               if (case reader_isFresh env of
                     Some isFresh \<Rightarrow> isFresh resultC (makeReference d) S' ctx st1
                   | None \<Rightarrow> False)
               then (Inr (makeReference d, outC), st1)
               else
                 (let typename = inferTypename env ctx (Some d) resultC S' st1 in
                  case forEachSelection env ctx resultC typename []
                         (workSet_addAll [] [] (selections S'))
                         (initialFields env (snd (identify env resultC S' (fragmentMap ctx)))
                            typename)
                         outC st1 of
                    (Inl e, st2) \<Rightarrow> (Inl e, st2)
                  | (Inr (mergedFields, out', workSet), st2) \<Rightarrow>
                      (Inr (makeReference d, out'),
                       snd (commitEntity env ctx d typename mergedFields out' st2)))))
       \<and> {S, S'} \<subseteq> set (written (snd (processSelectionSet env ctx dataIdC resultC S' outC stB)) d)"
proof -
  have rec1: "S \<in> set (written stA d)"
    unfolding stA_def using first by (rule processSelectionSet_records)
  then have rec2: "S \<in> set (written stB d)" using later unfolding grows_def by blast
  have a: "processSelectionSet env ctx dataIdB resultB S outB stB = (Inr (makeReference d, outB), stB)"
    using second rec2 by (rule processSelectionSet_hit)
  have "grows st stA" unfolding stA_def by (rule grows_all(1))
  then have g: "grows st stB" using later grows_trans by blast
  have b: "count_list (written stB d) S = 1" if "\<forall>d'. distinct (written st d')"
  proof -
    have "distinct (written stB d)" using g that unfolding grows_def by blast
    then show ?thesis using rec2 by (simp add: count_list_distinct)
  qed
  note c = processSelectionSet_miss[OF other, of stB outC]
  let ?st3 = "snd (processSelectionSet env ctx dataIdC resultC S' outC stB)"
  have "S' \<in> set (written ?st3 d)" using other by (rule processSelectionSet_records)
  moreover have "grows stB ?st3" by (rule grows_all(1))
  then have "S \<in> set (written ?st3 d)" using rec2 unfolding grows_def by blast
  ultimately show ?thesis using a b c by simp
qed

theorem no_double_processing_witness:
  "(let stA = snd (processSelectionSet sample_env sample_context None todo1 S_todo False state0);
        st1 = stA\<lparr>written := (written stA)(''Todo:1'' := written stA ''Todo:1'' @ [S_todo'])\<rparr>;
        typename = inferTypename sample_env sample_context (Some ''Todo:1'') todo1 S_todo' st1
    in processSelectionSet sample_env sample_context None todo1 S_todo True stA
         = (Inr (makeReference ''Todo:1'', True), stA)
       \<and> count_list (written stA ''Todo:1'') S_todo = 1
       \<and> S_todo' \<notin> set (written stA ''Todo:1'')
       \<and> processSelectionSet sample_env sample_context None todo1 S_todo' True stA =
           (case forEachSelection sample_env sample_context todo1 typename []
                   (workSet_addAll [] [] (selections S_todo'))
                   (initialFields sample_env
                      (snd (identify sample_env todo1 S_todo' (fragmentMap sample_context)))
                      typename)
                   True st1 of
              (Inl e, st2) \<Rightarrow> (Inl e, st2)
            | (Inr (mergedFields, out', workSet), st2) \<Rightarrow>
                (Inr (makeReference ''Todo:1'', out'),
                 snd (commitEntity sample_env sample_context ''Todo:1'' typename mergedFields
                        out' st2)))
       \<and> {S_todo, S_todo'} \<subseteq>
           set (written (snd (processSelectionSet sample_env sample_context None todo1 S_todo'
                  True stA)) ''Todo:1''))"
proof -
  have ident: "id_or None (fst (identify sample_env todo1 S (fragmentMap sample_context)))
      = Some ''Todo:1''" for S
    by (simp add: sample_env_def sample_identify_def todo1_def getField_def)
  have dist: "\<forall>d'. distinct (written state0 d')"
    by (simp add: state0_def initial_state_def)
  have notin: "S_todo' \<notin> set (written
      (snd (processSelectionSet sample_env sample_context None todo1 S_todo False state0))
      ''Todo:1'')"
    by code_simp
  have reader: "reader_isFresh sample_env = None" by (simp add: sample_env_def)
  note T = no_double_processing[OF ident refl grows_refl ident ident,
        where S = S_todo and outA = False and st = state0 and S' = S_todo'
          and outB = True and outC = True]
  note c1 = T[THEN conjunct1]
  note c2 = T[THEN conjunct2, THEN conjunct1, THEN mp, OF dist]
  note c3 = T[THEN conjunct2, THEN conjunct2, THEN conjunct1, THEN mp, OF notin,
      unfolded reader Let_def option.case if_False]
  note c4 = T[THEN conjunct2, THEN conjunct2, THEN conjunct2]
  show ?thesis
    unfolding Let_def
    by (intro conjI) (rule c1, rule c2, rule notin, rule c3, rule c4)
qed

subsection \<open>The field value processor\<close>

lemma processFieldValue_leaf:
  "field_selectionSet field = None \<or> v = JNull \<Longrightarrow>
     processFieldValue env ctx v field out st =
       (Inr (if production env then v else cloneDeep v, out), st)"
  by (auto simp: processFieldValue.simps split: option.splits)

lemma processFieldValue_array:
  "field_selectionSet field = Some ss \<Longrightarrow>
     processFieldValue env ctx (JArr items) field out st =
       (case mapItems env ctx items field out st of
          (Inl e, st1) \<Rightarrow> (Inl e, st1)
        | (Inr (items', out1), st1) \<Rightarrow> (Inr (JArr items', out1), st1))"
  by (simp add: processFieldValue.simps)

lemma processFieldValue_object:
  "field_selectionSet field = Some ss \<Longrightarrow> v \<noteq> JNull \<Longrightarrow> \<not> isArray v \<Longrightarrow>
     processFieldValue env ctx v field out st = processSelectionSet env ctx None v ss out st"
  by (cases v) (simp_all add: processFieldValue.simps)

lemma mapItems_itemwise:
  "mapItems env ctx items field out st = (Inr (items', out'), st') \<Longrightarrow>
     list_all2 (itemwise env ctx field) items items'"
proof (induction items arbitrary: items' out st)
  case Nil
  then show ?case by (simp add: mapItems.simps)
next
  case (Cons item items)
  from Cons.prems obtain item' out1 st1 rest where
    first: "processFieldValue env ctx item field out st = (Inr (item', out1), st1)"
    and rest: "mapItems env ctx items field out1 st1 = (Inr (rest, out'), st')"
    and items': "items' = item' # rest"
    by (auto simp: mapItems.simps split: prod.splits sum.splits)
  have "itemwise env ctx field item item'" unfolding itemwise_def using first by blast
  moreover have "list_all2 (itemwise env ctx field) items rest" using rest by (rule Cons.IH)
  ultimately show ?case using items' by simp
qed

lemma itemwise_null: "itemwise env ctx field JNull item' \<Longrightarrow> item' = JNull"
  unfolding itemwise_def by (auto simp: processFieldValue_leaf cloneDeep_def)

text \<open>
  Claim C9. The field value processor returns a value with no nested selection set, and
  an explicit \<^verbatim>\<open>null\<close>, as it is (through \<^verbatim>\<open>cloneDeep\<close> outside production mode, which
  yields an equal value). A sequence under a nested selection set is mapped element by
  element through the processor itself: the result is a sequence of the same length, each
  element the processor's result for the element at the same index, and a \<^verbatim>\<open>null\<close>
  element stays \<^verbatim>\<open>null\<close>. Any other value is handed to \<^verbatim>\<open>processSelectionSet\<close> with the
  field's selection set, the same context and state, and no explicit identifier.
\<close>

theorem field_value_processor:
  "(field_selectionSet field = None \<or> v = JNull \<longrightarrow>
      processFieldValue env ctx v field out st =
        (Inr (if production env then v else cloneDeep v, out), st) \<and> cloneDeep v = v)
   \<and> (field_selectionSet field = Some ss \<and>
        processFieldValue env ctx (JArr items) field out st = (Inr (v', out'), st') \<longrightarrow>
      (\<exists>items'. v' = JArr items' \<and> length items' = length items \<and>
         list_all2 (itemwise env ctx field) items items' \<and>
         (\<forall>i < length items. items ! i = JNull \<longrightarrow> items' ! i = JNull)))
   \<and> (field_selectionSet field = Some ss \<and> v \<noteq> JNull \<and> \<not> isArray v \<longrightarrow>
      processFieldValue env ctx v field out st = processSelectionSet env ctx None v ss out st)"
proof (intro conjI impI)
  assume "field_selectionSet field = None \<or> v = JNull"
  then show "processFieldValue env ctx v field out st =
      (Inr (if production env then v else cloneDeep v, out), st)"
    by (rule processFieldValue_leaf)
next
  show "cloneDeep v = v" by (simp add: cloneDeep_def)
next
  assume a: "field_selectionSet field = Some ss \<and>
      processFieldValue env ctx (JArr items) field out st = (Inr (v', out'), st')"
  then obtain items' where m: "mapItems env ctx items field out st = (Inr (items', out'), st')"
    and v': "v' = JArr items'"
    by (auto simp: processFieldValue_array split: prod.splits sum.splits)
  have l: "list_all2 (itemwise env ctx field) items items'" using m by (rule mapItems_itemwise)
  then have len: "length items' = length items" by (simp add: list_all2_lengthD)
  have "items' ! i = JNull" if "i < length items" "items ! i = JNull" for i
    using list_all2_nthD[OF l that(1)] that(2) by (simp add: itemwise_null)
  with v' len l show "\<exists>items'. v' = JArr items' \<and> length items' = length items \<and>
         list_all2 (itemwise env ctx field) items items' \<and>
         (\<forall>i < length items. items ! i = JNull \<longrightarrow> items' ! i = JNull)"
    by blast
next
  assume "field_selectionSet field = Some ss \<and> v \<noteq> JNull \<and> \<not> isArray v"
  then show "processFieldValue env ctx v field out st = processSelectionSet env ctx None v ss out st"
    by (simp add: processFieldValue_object)
qed

theorem field_value_processor_witness:
  "processFieldValue sample_env sample_context JNull F_todos False state0
     = (Inr (JNull, False), state0)
   \<and> (\<exists>items'. fst (processFieldValue sample_env sample_context (JArr [todo1, JNull]) F_todos
                      False state0) = Inr (JArr items', False)
         \<and> length items' = 2 \<and> items' ! 1 = JNull)
   \<and> processFieldValue sample_env sample_context todo1 F_todos False state0
     = processSelectionSet sample_env sample_context None todo1 S_todo False state0"
proof -
  have ss: "field_selectionSet F_todos = Some S_todo" by (simp add: F_todos_def)
  have prod: "\<not> production sample_env" by (simp add: sample_env_def)
  obtain r st' where run:
    "processFieldValue sample_env sample_context (JArr [todo1, JNull]) F_todos False state0 = (r, st')"
    by (cases "processFieldValue sample_env sample_context (JArr [todo1, JNull]) F_todos False state0")
  have "fst (processFieldValue sample_env sample_context (JArr [todo1, JNull]) F_todos False state0)
      = Inr (JArr [makeReference ''Todo:1'', JNull], False)"
    by code_simp
  then have r: "r = Inr (JArr [makeReference ''Todo:1'', JNull], False)" using run by simp
  have obj: "todo1 \<noteq> JNull \<and> \<not> isArray todo1" by (simp add: todo1_def)
  show ?thesis
    using field_value_processor[where env = sample_env and ctx = sample_context
        and field = F_todos and out = False and st = state0 and ss = S_todo and v = JNull
        and items = "[todo1, JNull]" and v' = "JArr [makeReference ''Todo:1'', JNull]"
        and out' = False and st' = st']
      field_value_processor[where env = sample_env and ctx = sample_context
        and field = F_todos and out = False and st = state0 and ss = S_todo and v = todo1]
      ss prod run r obj
    by (auto simp: cloneDeep_def)
qed

subsection \<open>One step of the walk\<close>

text \<open>
  What line 242 returns for the value that line 231 has found: the result of
  \<^verbatim>\<open>processFieldValue\<close> on it, as the walk calls it.
\<close>

definition processFoundValue ::
  "'s env \<Rightarrow> wcontext \<Rightarrow> jsval \<Rightarrow> selection \<Rightarrow> bool \<Rightarrow> 's wstate
     \<Rightarrow> (error + jsval \<times> bool) \<times> 's wstate" where
  "processFoundValue env ctx result selection out st =
     (if ownProp result (resultKeyNameFromField selection) \<noteq> None
      then processFieldValue env ctx
             (readProp env result (resultKeyNameFromField selection)) selection out st
      else if maxDescent env = 0 then (Inl RangeError, st)
      else processFieldValue (env\<lparr>maxDescent := maxDescent env - 1\<rparr>) ctx
             (readProp env result (resultKeyNameFromField selection)) selection out st)"


lemma forEachSelection_excluded:
  "\<not> shouldInclude env selection (variables ctx) \<Longrightarrow>
     forEachSelection env ctx result typename visited (selection # todo) mergedFields out st =
     forEachSelection env ctx result typename (visited @ [selection]) todo mergedFields out st"
  by (simp add: forEachSelection.simps(2))

lemma own_readProp:
  "getProp r k \<noteq> JUndef \<Longrightarrow> ownProp r k \<noteq> None \<and> readProp env r k = getProp r k"
  by (cases r) (auto simp: readProp_def getField_def split: option.splits)

lemma forEachSelection_absent:
  "isField selection \<Longrightarrow> shouldInclude env selection (variables ctx) \<Longrightarrow>
   readProp env result (resultKeyNameFromField selection) = JUndef \<Longrightarrow>
     forEachSelection env ctx result typename visited (selection # todo) mergedFields out st =
       (if usingPossibleTypes env \<and> \<not> hasDirectives env [''defer'', ''client''] selection
        then (Inl (missingField env (resultKeyNameFromField selection) result), st)
        else forEachSelection env ctx result typename (visited @ [selection]) todo
               mergedFields out st)"
  by (simp add: forEachSelection.simps(2) Let_def)

lemma forEachSelection_found:
  "isField selection \<Longrightarrow> shouldInclude env selection (variables ctx) \<Longrightarrow>
   readProp env result (resultKeyNameFromField selection) \<noteq> JUndef \<Longrightarrow>
     forEachSelection env ctx result typename visited (selection # todo) mergedFields out st =
       (case processFoundValue env ctx result selection out st of
          (Inl e, st1) \<Rightarrow> (Inl e, st1)
        | (Inr (incomingValue, out1), st1) \<Rightarrow>
            forEachSelection env ctx result typename (visited @ [selection]) todo
              (merge env mergedFields
                 [(getStoreFieldName env typename (name_value selection) selection (variables ctx),
                   if hasMergeFunction env typename (name_value selection)
                   then FieldValueToBeMerged selection typename incomingValue
                   else incomingValue)])
              (out1 \<or> hasMergeFunction env typename (name_value selection)) st1)"
  by (auto simp: forEachSelection.simps(2) processFoundValue_def Let_def
      split: prod.splits sum.splits)

lemma processFoundValue_own:
  "getProp result (resultKeyNameFromField selection) \<noteq> JUndef \<Longrightarrow>
     processFoundValue env ctx result selection out st =
       processFieldValue env ctx (getProp result (resultKeyNameFromField selection))
         selection out st"
  using own_readProp[of result "resultKeyNameFromField selection" env]
  by (simp add: processFoundValue_def)

lemma forEachSelection_present:
  "isField selection \<Longrightarrow> shouldInclude env selection (variables ctx) \<Longrightarrow>
   getProp result (resultKeyNameFromField selection) \<noteq> JUndef \<Longrightarrow>
     forEachSelection env ctx result typename visited (selection # todo) mergedFields out st =
       (case processFieldValue env ctx (getProp result (resultKeyNameFromField selection))
               selection out st of
          (Inl e, st1) \<Rightarrow> (Inl e, st1)
        | (Inr (incomingValue, out1), st1) \<Rightarrow>
            forEachSelection env ctx result typename (visited @ [selection]) todo
              (merge env mergedFields
                 [(getStoreFieldName env typename (name_value selection) selection (variables ctx),
                   if hasMergeFunction env typename (name_value selection)
                   then FieldValueToBeMerged selection typename incomingValue
                   else incomingValue)])
              (out1 \<or> hasMergeFunction env typename (name_value selection)) st1)"
  using own_readProp[of result "resultKeyNameFromField selection" env]
  by (simp add: forEachSelection_found processFoundValue_own)

lemma forEachSelection_fragment:
  "\<not> isField selection \<Longrightarrow> shouldInclude env selection (variables ctx) \<Longrightarrow>
     forEachSelection env ctx result typename visited (selection # todo) mergedFields out st =
       forEachSelection env ctx result typename (visited @ [selection])
         (case getFragmentFromSelection selection (fragmentMap ctx) of
            Some fragment \<Rightarrow>
              if fragmentMatches env fragment typename
              then workSet_addAll (visited @ [selection]) todo
                     (selections (fragment_selectionSet fragment))
              else todo
          | None \<Rightarrow> todo)
         mergedFields out st"
  by (simp add: forEachSelection.simps(2) split: option.splits)

lemma processSelectionSet_walk:
  assumes "alreadyWritten env ctx (id_or dataId0 (fst (identify env result S (fragmentMap ctx))))
             result S st = (None, st1)"
  shows "processSelectionSet env ctx dataId0 result S out st =
     (let dataId = id_or dataId0 (fst (identify env result S (fragmentMap ctx)));
          typename = inferTypename env ctx dataId result S st1
      in case forEachSelection env ctx result typename [] (workSet_addAll [] [] (selections S))
                (initialFields env (snd (identify env result S (fragmentMap ctx))) typename)
                out st1 of
           (Inl e, st2) \<Rightarrow> (Inl e, st2)
         | (Inr (mergedFields, out', workSet), st2) \<Rightarrow>
             (case dataId of
                Some d \<Rightarrow> (Inr (makeReference d, out'),
                            snd (commitEntity env ctx d typename mergedFields out' st2))
              | None \<Rightarrow> (Inr (JObj mergedFields, out'), st2)))"
  using assms
  by (auto simp: processSelectionSet.simps Let_def commitEntity_def
      split: prod.splits sum.splits option.splits)

subsection \<open>Missing fields\<close>




subsection \<open>Null values\<close>

text \<open>
  Claim C10, as amended. A field selection that the inclusion predicate keeps and whose
  value, a property of the result object itself, is \<^verbatim>\<open>null\<close> is not missing: the field value processor returns \<^verbatim>\<open>null\<close> for it
  without an error and without touching the state, and the walk merges \<^verbatim>\<open>null\<close> into the
  accumulator under the field's storage key, inside a \<^verbatim>\<open>FieldValueToBeMerged\<close> marker when
  the field has a custom merge function. Whenever the value is not \<^verbatim>\<open>undefined\<close> the step
  has no missing-field check: it fails only with an error of the field value processor.
\<close>

theorem null_is_not_missing:
  "(isField selection \<and> shouldInclude env selection (variables ctx) \<and>
      getProp result (resultKeyNameFromField selection) = JNull \<longrightarrow>
      forEachSelection env ctx result typename visited (selection # todo) mergedFields out st =
      forEachSelection env ctx result typename (visited @ [selection]) todo
        (merge env mergedFields
           [(getStoreFieldName env typename (name_value selection) selection (variables ctx),
             if hasMergeFunction env typename (name_value selection)
             then FieldValueToBeMerged selection typename JNull
             else JNull)])
        (out \<or> hasMergeFunction env typename (name_value selection)) st)
   \<and> processFieldValue env ctx JNull field out st = (Inr (JNull, out), st)
   \<and> (isField selection \<and> shouldInclude env selection (variables ctx) \<and>
      getProp result (resultKeyNameFromField selection) \<noteq> JUndef \<longrightarrow>
      forEachSelection env ctx result typename visited (selection # todo) mergedFields out st =
        (case processFieldValue env ctx (getProp result (resultKeyNameFromField selection))
                selection out st of
           (Inl e, st1) \<Rightarrow> (Inl e, st1)
         | (Inr (incomingValue, out1), st1) \<Rightarrow>
             forEachSelection env ctx result typename (visited @ [selection]) todo
               (merge env mergedFields
                  [(getStoreFieldName env typename (name_value selection) selection
                      (variables ctx),
                    if hasMergeFunction env typename (name_value selection)
                    then FieldValueToBeMerged selection typename incomingValue
                    else incomingValue)])
               (out1 \<or> hasMergeFunction env typename (name_value selection)) st1))"
proof (intro conjI impI)
  show leaf: "processFieldValue env ctx JNull field out st = (Inr (JNull, out), st)" for field
    by (simp add: processFieldValue_leaf cloneDeep_def)
  assume "isField selection \<and> shouldInclude env selection (variables ctx) \<and>
      getProp result (resultKeyNameFromField selection) = JNull"
  then show "forEachSelection env ctx result typename visited (selection # todo) mergedFields out st =
      forEachSelection env ctx result typename (visited @ [selection]) todo
        (merge env mergedFields
           [(getStoreFieldName env typename (name_value selection) selection (variables ctx),
             if hasMergeFunction env typename (name_value selection)
             then FieldValueToBeMerged selection typename JNull
             else JNull)])
        (out \<or> hasMergeFunction env typename (name_value selection)) st"
    by (simp add: forEachSelection_present leaf)
next
  assume "isField selection \<and> shouldInclude env selection (variables ctx) \<and>
      getProp result (resultKeyNameFromField selection) \<noteq> JUndef"
  then show "forEachSelection env ctx result typename visited (selection # todo) mergedFields out st =
        (case processFieldValue env ctx (getProp result (resultKeyNameFromField selection))
                selection out st of
           (Inl e, st1) \<Rightarrow> (Inl e, st1)
         | (Inr (incomingValue, out1), st1) \<Rightarrow>
             forEachSelection env ctx result typename (visited @ [selection]) todo
               (merge env mergedFields
                  [(getStoreFieldName env typename (name_value selection) selection
                      (variables ctx),
                    if hasMergeFunction env typename (name_value selection)
                    then FieldValueToBeMerged selection typename incomingValue
                    else incomingValue)])
               (out1 \<or> hasMergeFunction env typename (name_value selection)) st1)"
    by (simp add: forEachSelection_present)
qed

theorem null_is_not_missing_witness:
  "forEachSelection sample_env sample_context todo_null (JStr ''Todo'') [F_id] [F_text]
     [(''id'', JStr ''1'')] False state0
   = forEachSelection sample_env sample_context todo_null (JStr ''Todo'') [F_id, F_text] []
       (mergeObjects [(''id'', JStr ''1'')] [(''text'', JNull)]) False state0
   \<and> fst (writeToStore sample_env (query_of [F_id, F_text]) todo_null None None state0)
     = Inr (makeReference ''Todo:1'')
   \<and> sstore_get (store (snd (writeToStore sample_env (query_of [F_id, F_text]) todo_null
        None None state0))) ''Todo:1'' ''text'' = JNull"
proof -
  have h: "isField F_text \<and> shouldInclude sample_env F_text (variables sample_context) \<and>
      getProp todo_null (resultKeyNameFromField F_text) = JNull"
    by (simp add: F_text_def sample_env_def sample_shouldInclude_def todo_null_def getField_def)
  have e: "merge sample_env = mergeObjects"
    "\<not> hasMergeFunction sample_env (JStr ''Todo'') (name_value F_text)"
    "getStoreFieldName sample_env (JStr ''Todo'') (name_value F_text) F_text
       (variables sample_context) = ''text''"
    by (simp_all add: sample_env_def sample_getStoreFieldName_def F_text_def)
  have w: "fst (writeToStore sample_env (query_of [F_id, F_text]) todo_null None None state0)
     = Inr (makeReference ''Todo:1'')
   \<and> sstore_get (store (snd (writeToStore sample_env (query_of [F_id, F_text]) todo_null
        None None state0))) ''Todo:1'' ''text'' = JNull"
    by code_simp
  show ?thesis
    using null_is_not_missing[where env = sample_env and ctx = sample_context
        and selection = F_text and result = todo_null and typename = "JStr ''Todo''"
        and visited = "[F_id]" and todo = "[]" and mergedFields = "[(''id'', JStr ''1'')]"
        and out = False and st = state0] h e w
    by simp
qed

text \<open>
  The claim as stated fails for a skipped field: its \<^verbatim>\<open>null\<close> is neither processed nor
  stored.
\<close>

theorem skipped_null_counterexample:
  "isField F_text_skipped
   \<and> getProp todo_null (resultKeyNameFromField F_text_skipped) = JNull
   \<and> fst (writeToStore sample_env (query_of [F_id, F_text_skipped]) todo_null None None state0)
     = Inr (makeReference ''Todo:1'')
   \<and> sstore_get (store (snd (writeToStore sample_env (query_of [F_id, F_text_skipped]) todo_null
        None None state0))) ''Todo:1'' ''text'' = JUndef"
  by code_simp

subsection \<open>Induction along the walk\<close>

lemma walk_induct [case_names Done Excluded Absent Present Fragment]:
  fixes env :: "'s env"
  assumes Done: "\<And>visited mergedFields out st. P visited [] mergedFields out st"
    and Excluded: "\<And>visited selection todo mergedFields out st.
        \<not> shouldInclude env selection (variables ctx) \<Longrightarrow>
        P (visited @ [selection]) todo mergedFields out st \<Longrightarrow>
        P visited (selection # todo) mergedFields out st"
    and Absent: "\<And>visited selection todo mergedFields out st.
        shouldInclude env selection (variables ctx) \<Longrightarrow> isField selection \<Longrightarrow>
        readProp env result (resultKeyNameFromField selection) = JUndef \<Longrightarrow>
        P (visited @ [selection]) todo mergedFields out st \<Longrightarrow>
        P visited (selection # todo) mergedFields out st"
    and Present: "\<And>visited selection todo mergedFields out st.
        shouldInclude env selection (variables ctx) \<Longrightarrow> isField selection \<Longrightarrow>
        readProp env result (resultKeyNameFromField selection) \<noteq> JUndef \<Longrightarrow>
        (\<And>incomingValue out1 st1.
           processFoundValue env ctx result selection out st
             = (Inr (incomingValue, out1), st1) \<Longrightarrow>
           P (visited @ [selection]) todo
             (merge env mergedFields
                [(getStoreFieldName env typename (name_value selection) selection (variables ctx),
                  if hasMergeFunction env typename (name_value selection)
                  then FieldValueToBeMerged selection typename incomingValue
                  else incomingValue)])
             (out1 \<or> hasMergeFunction env typename (name_value selection)) st1) \<Longrightarrow>
        P visited (selection # todo) mergedFields out st"
    and Fragment: "\<And>visited selection todo mergedFields out st.
        shouldInclude env selection (variables ctx) \<Longrightarrow> \<not> isField selection \<Longrightarrow>
        P (visited @ [selection])
          (case getFragmentFromSelection selection (fragmentMap ctx) of
             Some fragment \<Rightarrow>
               if fragmentMatches env fragment typename
               then workSet_addAll (visited @ [selection]) todo
                      (selections (fragment_selectionSet fragment))
               else todo
           | None \<Rightarrow> todo)
          mergedFields out st \<Longrightarrow>
        P visited (selection # todo) mergedFields out st"
  shows "P visited todo mergedFields out st"
proof (induction "walk_measure (fragmentMap ctx) visited todo"
         arbitrary: visited todo mergedFields out st rule: less_induct)
  case (less visited todo mergedFields out st)
  show ?case
  proof (cases todo)
    case Nil
    then show ?thesis by (simp add: Done)
  next
    case (Cons selection rest)
    have skip: "P (visited @ [selection]) rest m out' st'" for m out' st'
      by (rule less) (simp add: Cons walk_measure_skip)
    show ?thesis
    proof (cases "shouldInclude env selection (variables ctx)")
      case False
      then show ?thesis unfolding Cons by (rule Excluded) (rule skip)
    next
      case inc: True
      show ?thesis
      proof (cases "isField selection")
        case fld: True
        show ?thesis
        proof (cases "readProp env result (resultKeyNameFromField selection) = JUndef")
          case True
          with inc fld show ?thesis unfolding Cons by (rule Absent) (rule skip)
        next
          case False
          with inc fld show ?thesis unfolding Cons by (rule Present) (rule skip)
        qed
      next
        case nf: False
        have "P (visited @ [selection])
          (case getFragmentFromSelection selection (fragmentMap ctx) of
             Some fragment \<Rightarrow>
               if fragmentMatches env fragment typename
               then workSet_addAll (visited @ [selection]) rest
                      (selections (fragment_selectionSet fragment))
               else rest
           | None \<Rightarrow> rest)
          mergedFields out st"
          by (rule less) (auto simp: Cons walk_measure_skip walk_measure_expand split: option.splits)
        with inc nf show ?thesis unfolding Cons by (rule Fragment)
      qed
    qed
  qed
qed

subsection \<open>Inline records and References\<close>

lemma store_warnAboutDataLoss: "store (warnAboutDataLoss env r m k st) = store st"
  by (simp add: warnAboutDataLoss_def Let_def)

lemma store_warnAll: "store (warnAll env r t m st) = store st"
proof -
  have "store (foldl (\<lambda>s k. if \<not> hasMergeFunction env t (fieldNameFromStoreName env k)
        then warnAboutDataLoss env r m k s else s) st ks) = store st" for ks
    by (induction ks arbitrary: st) (simp_all add: store_warnAboutDataLoss)
  then show ?thesis by (simp add: warnAll_def Let_def)
qed

lemma store_commitEntity:
  "store (snd (commitEntity env ctx d t m out st)) =
     store_merge env (store st) d (committedFields env ctx d m out st)"
  by (simp add: commitEntity_def committedFields_def Let_def store_warnAll)

lemma fst_commitEntity: "fst (commitEntity env ctx d t m out st) = makeReference d"
  by (simp add: commitEntity_def Let_def)

lemma alreadyWritten_None: "alreadyWritten env ctx None result S st = (None, st)"
  by (simp add: alreadyWritten_def)

lemma alreadyWritten_Some_ref:
  "alreadyWritten env ctx dataId result S st = (Some ref, st1) \<Longrightarrow>
     \<exists>d. dataId = Some d \<and> ref = makeReference d"
  by (auto simp: alreadyWritten_def Let_def split: option.splits if_splits)

lemma processSelectionSet_result:
  assumes "processSelectionSet env ctx dataId0 result S out st = (Inr (v, out'), st')"
  shows "case id_or dataId0 (fst (identify env result S (fragmentMap ctx))) of
           Some d \<Rightarrow> v = makeReference d
         | None \<Rightarrow> (\<exists>m. v = JObj m)"
proof -
  let ?dataId = "id_or dataId0 (fst (identify env result S (fragmentMap ctx)))"
  obtain r st1 where aw: "alreadyWritten env ctx ?dataId result S st = (r, st1)"
    by (cases "alreadyWritten env ctx ?dataId result S st")
  show ?thesis
  proof (cases r)
    case (Some ref)
    then obtain d where "?dataId = Some d" "ref = makeReference d"
      using aw alreadyWritten_Some_ref by blast
    moreover have "v = ref" using assms aw Some by (simp add: processSelectionSet.simps Let_def)
    ultimately show ?thesis by simp
  next
    case None
    show ?thesis
      using assms aw[unfolded None]
      by (auto simp: processSelectionSet_walk Let_def split: prod.splits sum.splits option.splits)
  qed
qed

text \<open>
  Claim C7. \<^verbatim>\<open>processSelectionSet\<close> returns a Reference only for an object that has an
  identifier (the explicit one, or else the one the policies computed), and then the
  Reference to that identifier. With no identifier there is no commit: the call is its
  walk and nothing more, it leaves the state as the walk left it, and it returns the
  accumulator of the walk itself, which is not a Reference.
\<close>

theorem inline_without_identifier:
  "(id_or explicitId (fst (identify env result S (fragmentMap ctx))) = None \<longrightarrow>
      processSelectionSet env ctx explicitId result S out st =
        (case forEachSelection env ctx result (inferTypename env ctx None result S st) []
                (workSet_addAll [] [] (selections S))
                (initialFields env (snd (identify env result S (fragmentMap ctx)))
                   (inferTypename env ctx None result S st))
                out st of
           (Inl e, st2) \<Rightarrow> (Inl e, st2)
         | (Inr (mergedFields, out', workSet), st2) \<Rightarrow> (Inr (JObj mergedFields, out'), st2)))
   \<and> (processSelectionSet env ctx explicitId result S out st = (Inr (v, out'), st') \<and> isReference v \<longrightarrow>
        (\<exists>d. id_or explicitId (fst (identify env result S (fragmentMap ctx))) = Some d \<and>
             v = makeReference d))
   \<and> (id_or explicitId (fst (identify env result S (fragmentMap ctx))) = None \<and>
      processSelectionSet env ctx explicitId result S out st = (Inr (v, out'), st') \<longrightarrow>
        \<not> isReference v)"
proof (intro conjI impI)
  assume none: "id_or explicitId (fst (identify env result S (fragmentMap ctx))) = None"
  have "alreadyWritten env ctx (id_or explicitId (fst (identify env result S (fragmentMap ctx))))
          result S st = (None, st)"
    unfolding none by (rule alreadyWritten_None)
  then show "processSelectionSet env ctx explicitId result S out st =
        (case forEachSelection env ctx result (inferTypename env ctx None result S st) []
                (workSet_addAll [] [] (selections S))
                (initialFields env (snd (identify env result S (fragmentMap ctx)))
                   (inferTypename env ctx None result S st))
                out st of
           (Inl e, st2) \<Rightarrow> (Inl e, st2)
         | (Inr (mergedFields, out', workSet), st2) \<Rightarrow> (Inr (JObj mergedFields, out'), st2))"
    using none by (simp add: processSelectionSet_walk Let_def split: prod.splits sum.splits)
next
  assume "processSelectionSet env ctx explicitId result S out st = (Inr (v, out'), st') \<and> isReference v"
  then show "\<exists>d. id_or explicitId (fst (identify env result S (fragmentMap ctx))) = Some d \<and>
             v = makeReference d"
    using processSelectionSet_result[of env ctx explicitId result S out st v out' st']
    by (auto split: option.splits)
next
  assume "id_or explicitId (fst (identify env result S (fragmentMap ctx))) = None \<and>
      processSelectionSet env ctx explicitId result S out st = (Inr (v, out'), st')"
  then show "\<not> isReference v"
    using processSelectionSet_result[of env ctx explicitId result S out st v out' st']
    by auto
qed

theorem inline_without_identifier_witness:
  "fst (processSelectionSet sample_env sample_context None anonymous S_text False state0)
     = Inr (JObj [(''text'', JStr ''a'')], False)
   \<and> \<not> isReference (JObj [(''text'', JStr ''a'')])
   \<and> entities (store (snd (processSelectionSet sample_env sample_context None anonymous S_text
        False state0))) = []
   \<and> (\<exists>d. id_or None (fst (identify sample_env todo1 S_todo (fragmentMap sample_context))) = Some d
        \<and> makeReference ''Todo:1'' = makeReference d)"
proof -
  have none: "id_or None (fst (identify sample_env anonymous S_text (fragmentMap sample_context)))
      = None"
    by (simp add: sample_env_def sample_identify_def anonymous_def getField_def)
  obtain st' where run: "processSelectionSet sample_env sample_context None anonymous S_text
      False state0 = (Inr (JObj [(''text'', JStr ''a'')], False), st')"
  proof -
    have "fst (processSelectionSet sample_env sample_context None anonymous S_text False state0)
        = Inr (JObj [(''text'', JStr ''a'')], False)"
      by code_simp
    then show ?thesis using that
      by (cases "processSelectionSet sample_env sample_context None anonymous S_text False state0")
         simp
  qed
  obtain st'' where run2: "processSelectionSet sample_env sample_context None todo1 S_todo
      False state0 = (Inr (makeReference ''Todo:1'', False), st'')"
  proof -
    have "fst (processSelectionSet sample_env sample_context None todo1 S_todo False state0)
        = Inr (makeReference ''Todo:1'', False)"
      by code_simp
    then show ?thesis using that
      by (cases "processSelectionSet sample_env sample_context None todo1 S_todo False state0")
         simp
  qed
  have st: "entities (store (snd (processSelectionSet sample_env sample_context None anonymous
      S_text False state0))) = []"
    by code_simp
  have r: "isReference (makeReference ''Todo:1'')" by (simp add: makeReference_def)
  have c1: "fst (processSelectionSet sample_env sample_context None anonymous S_text False state0)
     = Inr (JObj [(''text'', JStr ''a'')], False)"
    using run by simp
  have c2: "\<not> isReference (JObj [(''text'', JStr ''a'')])"
    using inline_without_identifier[where env = sample_env and ctx = sample_context
        and explicitId = None and result = anonymous and S = S_text and out = False
        and st = state0 and v = "JObj [(''text'', JStr ''a'')]" and out' = False and st' = st']
      none run
    by blast
  have c4: "\<exists>d. id_or None (fst (identify sample_env todo1 S_todo (fragmentMap sample_context)))
        = Some d \<and> makeReference ''Todo:1'' = makeReference d"
    using inline_without_identifier[where env = sample_env and ctx = sample_context
        and explicitId = None and result = todo1 and S = S_todo and out = False and st = state0
        and v = "makeReference ''Todo:1''" and out' = False and st' = st'']
      run2 r
    by blast
  show ?thesis using c1 c2 st c4 by blast
qed

subsection \<open>Key fields\<close>

lemma walk_keeps_keys:
  fixes env :: "'s env"
  assumes mk: "\<And>a b. fst ` set a \<subseteq> fst ` set (merge env a b)"
  shows "forEachSelection env ctx result typename visited todo mergedFields out st
           = (Inr (m', out', ws), st') \<Longrightarrow>
         fst ` set mergedFields \<subseteq> fst ` set m'"
proof (induction visited todo mergedFields out st
        rule: walk_induct[where env = env and ctx = ctx and result = result and typename = typename])
  case (Done visited mergedFields out st)
  then show ?case by (simp add: forEachSelection.simps(1))
next
  case (Excluded visited selection todo mergedFields out st)
  then show ?case by (simp add: forEachSelection_excluded)
next
  case (Absent visited selection todo mergedFields out st)
  then show ?case by (simp add: forEachSelection_absent split: if_splits)
next
  case (Present visited selection todo mergedFields out st)
  from Present.prems Present.hyps obtain incomingValue out1 st1 where
    pfv: "processFoundValue env ctx result selection out st = (Inr (incomingValue, out1), st1)"
    and rest: "forEachSelection env ctx result typename (visited @ [selection]) todo
             (merge env mergedFields
                [(getStoreFieldName env typename (name_value selection) selection (variables ctx),
                  if hasMergeFunction env typename (name_value selection)
                  then FieldValueToBeMerged selection typename incomingValue
                  else incomingValue)])
             (out1 \<or> hasMergeFunction env typename (name_value selection)) st1
           = (Inr (m', out', ws), st')"
    by (auto simp: forEachSelection_found split: prod.splits sum.splits)
  from Present.IH[OF pfv rest] mk show ?case by blast
next
  case (Fragment visited selection todo mergedFields out st)
  then show ?case by (simp add: forEachSelection_fragment)
qed

lemma keys_setField: "fst ` set (setField a k v) = insert k (fst ` set a)"
proof (induction a)
  case Nil
  then show ?case by simp
next
  case (Cons kv a)
  obtain k' v' where kv: "kv = (k', v')" by (cases kv)
  show ?case
  proof (cases "k' = k")
    case True
    then show ?thesis unfolding kv by simp
  next
    case False
    then show ?thesis unfolding kv using Cons by (simp add: insert_commute)
  qed
qed

lemma mergeObjects_keys:
  "fst ` set a \<union> fst ` set b \<subseteq> fst ` set (mergeObjects a b)"
proof (induction b arbitrary: a)
  case Nil
  then show ?case by simp
next
  case (Cons kv b)
  obtain k v where kv: "kv = (k, v)" by (cases kv)
  let ?a' = "case map_of a k of None \<Rightarrow> a @ [(k, v)] | Some old \<Rightarrow> setField a k (mergeValue old v)"
  have "fst ` set ?a' = insert k (fst ` set a)"
    by (auto simp: keys_setField split: option.splits)
  with Cons[of ?a'] show ?case unfolding kv by auto
qed

text \<open>
  Claim C8. An explicit identifier \<open>d\<close> is the identifier of the object whatever the
  policies computed: the Reference returned is the one to \<open>d\<close> and the record is committed
  under \<open>d\<close>. The key fields that the policies derived are still merged, before anything
  else, into the empty accumulator (the typename is set after them and the walk starts from
  there), so with a merger and custom merges that drop no key, every key field is a key of
  the record committed to the store, requested by the query or not.
\<close>

theorem key_fields_committed:
  fixes env :: "'s env"
  assumes ident: "identify env result S (fragmentMap ctx) = (computedId, Some keyObject)"
    and explicit: "d \<noteq> []"
    and fresh: "alreadyWritten env ctx (Some d) result S st = (None, st1)"
    and typename: "typename = inferTypename env ctx (Some d) result S st1"
    and walk: "forEachSelection env ctx result typename [] (workSet_addAll [] [] (selections S))
                 (initialFields env (Some keyObject) typename) out st1
               = (Inr (mergedFields, out', workSet), st2)"
    and merge_keys: "\<forall>a b. fst ` set a \<union> fst ` set b \<subseteq> fst ` set (merge env a b)"
    and applyMerges_keys: "\<forall>ref m c s. fst ` set m \<subseteq> fst ` set (applyMerges env ref m c s)"
  shows "fst (processSelectionSet env ctx (Some d) result S out st) = Inr (makeReference d, out')
       \<and> initialFields env (Some keyObject) typename =
           (if typeof_string typename
            then setField (merge env [] keyObject) ''__typename'' typename
            else merge env [] keyObject)
       \<and> store (snd (processSelectionSet env ctx (Some d) result S out st)) =
           store_merge env (store st2) d (committedFields env ctx d mergedFields out' st2)
       \<and> fst ` set keyObject \<subseteq> fst ` set (committedFields env ctx d mergedFields out' st2)"
proof -
  have eff: "id_or (Some d) (fst (identify env result S (fragmentMap ctx))) = Some d"
    using explicit by simp
  have run: "processSelectionSet env ctx (Some d) result S out st =
      (Inr (makeReference d, out'), snd (commitEntity env ctx d typename mergedFields out' st2))"
    using processSelectionSet_walk[of env ctx "Some d" result S st st1 out]
      fresh walk ident typename eff
    by (simp add: Let_def)
  have init: "initialFields env (Some keyObject) typename =
           (if typeof_string typename
            then setField (merge env [] keyObject) ''__typename'' typename
            else merge env [] keyObject)"
    by (simp add: initialFields_def)
  have "fst ` set keyObject \<subseteq> fst ` set (merge env [] keyObject)"
    using merge_keys by blast
  then have k0: "fst ` set keyObject \<subseteq> fst ` set (initialFields env (Some keyObject) typename)"
    unfolding init by (auto simp: keys_setField)
  have "fst ` set (initialFields env (Some keyObject) typename) \<subseteq> fst ` set mergedFields"
    using walk_keeps_keys[OF _ walk] merge_keys by blast
  with k0 have k1: "fst ` set keyObject \<subseteq> fst ` set mergedFields" by blast
  have k2: "fst ` set mergedFields \<subseteq> fst ` set (committedFields env ctx d mergedFields out' st2)"
    using applyMerges_keys by (simp add: committedFields_def)
  show ?thesis
    using run init k1 k2 by (simp add: store_commitEntity)
qed

theorem key_fields_committed_witness:
  "fst (processSelectionSet sample_env sample_context (Some ''custom'') todo1 S_text False state0)
     = Inr (makeReference ''custom'', False)
   \<and> fst ` set [(''id'', JStr ''1'')] \<subseteq>
       fst ` set [(''id'', JStr ''1''), (''__typename'', JStr ''Todo''), (''text'', JStr ''a'')]
   \<and> sstore_get (store (snd (processSelectionSet sample_env sample_context (Some ''custom'')
        todo1 S_text False state0))) ''custom'' ''id'' = JStr ''1''"
proof -
  have ident: "identify sample_env todo1 S_text (fragmentMap sample_context)
      = (Some ''Todo:1'', Some [(''id'', JStr ''1'')])"
    by (simp add: sample_env_def sample_identify_def todo1_def getField_def)
  have fresh: "alreadyWritten sample_env sample_context (Some ''custom'') todo1 S_text state0
      = (None, state0\<lparr>written := (written state0)(''custom'' := [S_text])\<rparr>)"
    by (simp add: alreadyWritten_def Let_def sample_env_def state0_def initial_state_def)
  let ?st1 = "state0\<lparr>written := (written state0)(''custom'' := [S_text])\<rparr>"
  have typename: "JStr ''Todo'' = inferTypename sample_env sample_context (Some ''custom'') todo1
      S_text ?st1"
    by (simp add: inferTypename_def sample_env_def js_or_def js_and_def todo1_def getField_def)
  obtain st2 where walk: "forEachSelection sample_env sample_context todo1 (JStr ''Todo'') []
      (workSet_addAll [] [] (selections S_text))
      (initialFields sample_env (Some [(''id'', JStr ''1'')]) (JStr ''Todo'')) False ?st1
      = (Inr ([(''id'', JStr ''1''), (''__typename'', JStr ''Todo''), (''text'', JStr ''a'')],
              False, [F_text]), st2)"
  proof -
    have "fst (forEachSelection sample_env sample_context todo1 (JStr ''Todo'') []
      (workSet_addAll [] [] (selections S_text))
      (initialFields sample_env (Some [(''id'', JStr ''1'')]) (JStr ''Todo'')) False ?st1)
      = Inr ([(''id'', JStr ''1''), (''__typename'', JStr ''Todo''), (''text'', JStr ''a'')],
              False, [F_text])"
      by code_simp
    then show ?thesis using that
      by (cases "forEachSelection sample_env sample_context todo1 (JStr ''Todo'') []
      (workSet_addAll [] [] (selections S_text))
      (initialFields sample_env (Some [(''id'', JStr ''1'')]) (JStr ''Todo'')) False ?st1") simp
  qed
  have mk: "\<forall>a b. fst ` set a \<union> fst ` set b \<subseteq> fst ` set (merge sample_env a b)"
    using mergeObjects_keys by (simp add: sample_env_def)
  have ak: "\<forall>ref m c s. fst ` set m \<subseteq> fst ` set (applyMerges sample_env ref m c s)"
    by (simp add: sample_env_def)
  have stored: "sstore_get (store (snd (processSelectionSet sample_env sample_context
      (Some ''custom'') todo1 S_text False state0))) ''custom'' ''id'' = JStr ''1''"
    by code_simp
  have "''custom'' \<noteq> []" by simp
  from key_fields_committed[OF ident this fresh typename walk mk ak] stored
  show ?thesis by (simp add: committedFields_def)
qed

subsection \<open>The write entry point\<close>

lemma writeToStore_unfold:
  "writeToStore env query root dataId vars st =
     (case processSelectionSet env (rootContext env query vars) dataId (rootResult root)
             (operation_selectionSet query) False (st\<lparr>written := (\<lambda>d. [])\<rparr>) of
        (Inl e, st1) \<Rightarrow> (Inl e, st1)
      | (Inr (objOrRef, out), st1) \<Rightarrow>
          (case rootId env query root dataId vars of
             Some d \<Rightarrow> (Inr (makeReference d), st1\<lparr>store := store_retain env (store st1) d\<rparr>)
           | None \<Rightarrow> (Inr JUndef, st1)))"
proof -
  let ?run = "processSelectionSet env (rootContext env query vars) dataId (rootResult root)
             (operation_selectionSet query) False (st\<lparr>written := (\<lambda>d. [])\<rparr>)"
  obtain x st1 where run: "?run = (x, st1)" by (cases ?run)
  show ?thesis
  proof (cases x)
    case (Inl e)
    with run show ?thesis
      by (simp add: writeToStore_def Let_def rootContext_def rootResult_def)
  next
    case (Inr b)
    obtain v out where b: "b = (v, out)" by (cases b)
    have shape: "case rootId env query root dataId vars of
           Some d \<Rightarrow> v = makeReference d | None \<Rightarrow> (\<exists>m. v = JObj m)"
      using processSelectionSet_result[of env "rootContext env query vars" dataId "rootResult root"
          "operation_selectionSet query" False "st\<lparr>written := (\<lambda>d. [])\<rparr>" v out st1]
        run Inr b
      by (simp add: rootId_def)
    show ?thesis
    proof (cases "rootId env query root dataId vars")
      case None
      then have falsy: "dataId = None \<or> dataId = Some []"
        by (cases dataId) (auto simp: rootId_def split: if_splits)
      from None shape obtain m where "v = JObj m" by auto
      with run Inr b None falsy show ?thesis
        by (auto simp: writeToStore_def Let_def rootContext_def rootResult_def js_or_def js_and_def)
    next
      case (Some d)
      with shape have "v = makeReference d" by simp
      with run Inr b Some show ?thesis
        by (simp add: writeToStore_def Let_def rootContext_def rootResult_def makeReference_def)
    qed
  qed
qed

text \<open>
  Claim C6. When \<^verbatim>\<open>writeToStore\<close> returns, it returns a Reference exactly when an explicit
  identifier was supplied (a non-empty string) or the policies resolved an identifier for
  the root object, and \<^verbatim>\<open>undefined\<close> otherwise. A Reference returned is the one to the
  identifier of the root, and the store left is the store after processing with that
  identifier retained; when \<^verbatim>\<open>undefined\<close> is returned nothing is retained.
\<close>

theorem write_returns_reference:
  assumes "writeToStore env query root dataId vars st = (Inr r, st')"
  shows "(isReference r \<longleftrightarrow>
            (\<exists>d. dataId = Some d \<and> d \<noteq> []) \<or>
            fst (identify env (rootResult root) (operation_selectionSet query)
                   (fragmentMap (rootContext env query vars))) \<noteq> None)
       \<and> (\<not> isReference r \<longrightarrow> r = JUndef \<and>
            st' = snd (processSelectionSet env (rootContext env query vars) dataId
                        (rootResult root) (operation_selectionSet query) False
                        (st\<lparr>written := (\<lambda>d. [])\<rparr>)))
       \<and> (isReference r \<longrightarrow>
            (\<exists>d. rootId env query root dataId vars = Some d \<and> r = makeReference d \<and>
                 st' = (snd (processSelectionSet env (rootContext env query vars) dataId
                          (rootResult root) (operation_selectionSet query) False
                          (st\<lparr>written := (\<lambda>d. [])\<rparr>)))
                       \<lparr>store := store_retain env
                          (store (snd (processSelectionSet env (rootContext env query vars)
                             dataId (rootResult root) (operation_selectionSet query) False
                             (st\<lparr>written := (\<lambda>d. [])\<rparr>)))) d\<rparr>))"
proof -
  let ?run = "processSelectionSet env (rootContext env query vars) dataId (rootResult root)
             (operation_selectionSet query) False (st\<lparr>written := (\<lambda>d. [])\<rparr>)"
  have supplied: "rootId env query root dataId vars \<noteq> None \<longleftrightarrow>
      (\<exists>d. dataId = Some d \<and> d \<noteq> []) \<or>
      fst (identify env (rootResult root) (operation_selectionSet query)
             (fragmentMap (rootContext env query vars))) \<noteq> None"
    by (cases dataId) (auto simp: rootId_def)
  obtain x st1 where run: "?run = (x, st1)" by (cases ?run)
  from assms run obtain v out where x: "x = Inr (v, out)"
    by (cases x) (auto simp: writeToStore_unfold)
  show ?thesis
  proof (cases "rootId env query root dataId vars")
    case None
    with assms run x have "r = JUndef" "st' = st1" by (simp_all add: writeToStore_unfold)
    with None supplied run show ?thesis by auto
  next
    case (Some d)
    with assms run x have "r = makeReference d"
      "st' = st1\<lparr>store := store_retain env (store st1) d\<rparr>"
      by (simp_all add: writeToStore_unfold)
    with Some supplied run show ?thesis by (auto simp: makeReference_def)
  qed
qed

theorem write_returns_reference_witness:
  "fst (identify sample_env (rootResult todo1) (operation_selectionSet (query_of [F_id, F_text]))
         (fragmentMap (rootContext sample_env (query_of [F_id, F_text]) None))) \<noteq> None
   \<and> store (snd (writeToStore sample_env (query_of [F_id, F_text]) todo1 None None state0))
     = store_retain sample_env
         (store (snd (processSelectionSet sample_env
            (rootContext sample_env (query_of [F_id, F_text]) None) None (rootResult todo1)
            (operation_selectionSet (query_of [F_id, F_text])) False
            (state0\<lparr>written := (\<lambda>d. [])\<rparr>))))
         ''Todo:1''
   \<and> rootIds (store (snd (writeToStore sample_env (query_of [F_id, F_text]) todo1 None None
        state0))) = [''Todo:1'']
   \<and> fst (writeToStore sample_env (query_of [F_text]) anonymous None None state0) = Inr JUndef
   \<and> rootIds (store (snd (writeToStore sample_env (query_of [F_text]) anonymous None None
        state0))) = []"
proof -
  let ?Q = "query_of [F_id, F_text]"
  obtain st' where run: "writeToStore sample_env ?Q todo1 None None state0
      = (Inr (makeReference ''Todo:1''), st')"
  proof -
    have "fst (writeToStore sample_env ?Q todo1 None None state0) = Inr (makeReference ''Todo:1'')"
      by code_simp
    then show ?thesis using that
      by (cases "writeToStore sample_env ?Q todo1 None None state0") simp
  qed
  have st': "st' = snd (writeToStore sample_env ?Q todo1 None None state0)"
    using run by simp
  have ref: "isReference (makeReference ''Todo:1'')" by (simp add: makeReference_def)
  note T = write_returns_reference[OF run]
  have a: "fst (identify sample_env (rootResult todo1) (operation_selectionSet ?Q)
         (fragmentMap (rootContext sample_env ?Q None))) \<noteq> None"
    using T ref by blast
  have b: "store st' = store_retain sample_env
         (store (snd (processSelectionSet sample_env (rootContext sample_env ?Q None) None
            (rootResult todo1) (operation_selectionSet ?Q) False
            (state0\<lparr>written := (\<lambda>d. [])\<rparr>))))
         ''Todo:1''"
    using T ref by (auto simp: makeReference_def)
  have c: "rootIds (store (snd (writeToStore sample_env ?Q todo1 None None state0)))
      = [''Todo:1'']"
    by code_simp
  have d: "fst (writeToStore sample_env (query_of [F_text]) anonymous None None state0)
      = Inr JUndef"
    by code_simp
  have e: "rootIds (store (snd (writeToStore sample_env (query_of [F_text]) anonymous None None
      state0))) = []"
    by code_simp
  show ?thesis using a b c d e unfolding st' by blast
qed

end
